theory Spec2Isabelle
  imports Complex_Main "HOL-Library.Multiset"
begin

section \<open>The route optimiser of \<^verbatim>\<open>Sim_Opti_Rutas.py\<close>\<close>

text \<open>
  The script plans a three-day itinerary over a fixed set of locations: day 1 goes from the
  airport through some places to the hotel, day 2 is the fixed round trip
  hotel, NASA, hotel, and day 3 goes from the hotel through the remaining places back to
  the airport. \<^verbatim>\<open>find_best_routes\<close> enumerates every split and every order and keeps
  the combination of least total distance whose three days each fit in twelve hours.

  Modelling decisions.
  \<^item> The module-level tables (\<^verbatim>\<open>DISTANCES_KM\<close>, \<^verbatim>\<open>TIMES_AT_LOCATION\<close>,
    \<^verbatim>\<open>LOCATIONS\<close>) are the fields of a record \<open>globals\<close> that every function reads;
    \<open>reference\<close> is the value the script gives them. The two configuration constants keep
    their values 12 and 60.
  \<^item> Location indices are Python integers (\<open>int\<close>). Reading a numpy array at an index
    outside its bounds raises \<^verbatim>\<open>IndexError\<close>, a negative index counts from the end, and
    \<^verbatim>\<open>list.index\<close> raises \<^verbatim>\<open>ValueError\<close> for an absent name; a function that can
    raise returns \<open>error + 'a\<close>.
  \<^item> Distances are integers. Times are the quotient of an integer by 60 plus integers; the
    script computes them in double precision, the model in exact rationals (\<open>rat\<close>), so
    rounding is abstracted away.
  \<^item> The order in which Python lists the elements of a \<^verbatim>\<open>set\<close> is left open by the
    language. It is the parameter \<open>order\<close> of the search; \<open>ascending\<close> is the order
    CPython produces for the small indices of the reference tables.
\<close>

subsection \<open>Errors and array reads\<close>

datatype error = IndexError | ValueError

text \<open>\<^verbatim>\<open>a[i]\<close> on a one-dimensional numpy array.\<close>

definition np_get :: "'a list \<Rightarrow> int \<Rightarrow> error + 'a" where
  "np_get xs i =
     (if 0 \<le> i \<and> i < int (length xs) then Inr (xs ! nat i)
      else if i < 0 \<and> - int (length xs) \<le> i then Inr (xs ! nat (i + int (length xs)))
      else Inl IndexError)"

text \<open>\<^verbatim>\<open>a[i, j]\<close> on a two-dimensional numpy array, stored as the list of its rows.\<close>

definition np_get2 :: "'a list list \<Rightarrow> int \<Rightarrow> int \<Rightarrow> error + 'a" where
  "np_get2 m i j = (case np_get m i of Inl e \<Rightarrow> Inl e | Inr row \<Rightarrow> np_get row j)"

text \<open>\<^verbatim>\<open>xs.index(x)\<close>: the position of the first occurrence.\<close>

fun list_index :: "'a list \<Rightarrow> 'a \<Rightarrow> error + int" where
  "list_index [] x = Inl ValueError"
| "list_index (y # ys) x =
     (if y = x then Inr 0
      else (case list_index ys x of Inl e \<Rightarrow> Inl e | Inr i \<Rightarrow> Inr (i + 1)))"

subsection \<open>Global data\<close>

record globals =
  DISTANCES_KM :: "int list list"
  TIMES_AT_LOCATION :: "int list"
  LOCATIONS :: "string list"

definition MAX_TIME_PER_DAY :: int where
  "MAX_TIME_PER_DAY = 12"

definition VELOCIDAD_PROMEDIO_KMH :: int where
  "VELOCIDAD_PROMEDIO_KMH = 60"

definition reference :: globals where
  "reference =
     \<lparr>DISTANCES_KM =
        [[0, 30, 25, 35, 40, 32, 45, 35],
         [30, 0, 12, 18, 45, 15, 35, 5],
         [25, 12, 0, 8, 42, 5, 38, 2],
         [35, 18, 8, 0, 40, 3, 39, 5],
         [40, 45, 42, 40, 0, 38, 20, 35],
         [32, 15, 5, 3, 38, 0, 36, 1],
         [45, 35, 38, 39, 20, 36, 0, 30],
         [35, 5, 2, 5, 35, 1, 30, 0]],
      TIMES_AT_LOCATION = [2, 3, 3, 5, 8, 2, 3, 1],
      LOCATIONS = [''Aeropuerto'', ''Daikin Park'', ''Museo de la Salud'', ''NRG Stadium'',
                   ''NASA'', ''Toyota Center'', ''USS Texas Museum'', ''Hotel'']\<rparr>"

subsection \<open>Auxiliary functions\<close>

definition get_location_index :: "globals \<Rightarrow> string \<Rightarrow> error + int" where
  "get_location_index g loc_name = list_index (LOCATIONS g) loc_name"

text \<open>
  The loop of \<^verbatim>\<open>calculate_route_time\<close> over the consecutive pairs of the route, with
  the running total as accumulator: first the travel time is added, then the time spent at
  the arrival.
\<close>

fun route_time_loop :: "globals \<Rightarrow> rat \<Rightarrow> int list \<Rightarrow> error + rat" where
  "route_time_loop g total_time (idx_from # idx_to # rest) =
     (case np_get2 (DISTANCES_KM g) idx_from idx_to of
        Inl e \<Rightarrow> Inl e
      | Inr d \<Rightarrow>
          (case np_get (TIMES_AT_LOCATION g) idx_to of
             Inl e \<Rightarrow> Inl e
           | Inr t \<Rightarrow>
               route_time_loop g
                 (total_time + of_int d / of_int VELOCIDAD_PROMEDIO_KMH + of_int t)
                 (idx_to # rest)))"
| "route_time_loop g total_time route = Inr total_time"

definition calculate_route_time :: "globals \<Rightarrow> int list \<Rightarrow> error + rat" where
  "calculate_route_time g route = route_time_loop g 0 route"

fun route_distance_loop :: "globals \<Rightarrow> int \<Rightarrow> int list \<Rightarrow> error + int" where
  "route_distance_loop g total_distance (idx_from # idx_to # rest) =
     (case np_get2 (DISTANCES_KM g) idx_from idx_to of
        Inl e \<Rightarrow> Inl e
      | Inr d \<Rightarrow> route_distance_loop g (total_distance + d) (idx_to # rest))"
| "route_distance_loop g total_distance route = Inr total_distance"

definition calculate_route_distance :: "globals \<Rightarrow> int list \<Rightarrow> error + int" where
  "calculate_route_distance g route = route_distance_loop g 0 route"

subsection \<open>Permutations\<close>

text \<open>
  \<^verbatim>\<open>itertools.permutations(iterable, r)\<close> yields the arrangements of \<open>r\<close> elements
  taken at distinct positions of the input, in the lexicographic order of the positions.
  \<open>picks xs\<close> lists, position by position, an element of \<open>xs\<close> with the others.
\<close>

fun picks :: "'a list \<Rightarrow> ('a \<times> 'a list) list" where
  "picks [] = []"
| "picks (x # xs) = (x, xs) # map (\<lambda>(y, ys). (y, x # ys)) (picks xs)"

fun permutations_r :: "'a list \<Rightarrow> nat \<Rightarrow> 'a list list" where
  "permutations_r xs 0 = [[]]"
| "permutations_r xs (Suc r) =
     concat (map (\<lambda>(y, ys). map ((#) y) (permutations_r ys r)) (picks xs))"

definition permutations :: "'a list \<Rightarrow> 'a list list" where
  "permutations xs = permutations_r xs (length xs)"

subsection \<open>The search\<close>

text \<open>\<^verbatim>\<open>float('inf')\<close> or the distance of a recorded combination.\<close>

datatype bound = Infinity | Finite int

fun less_bound :: "int \<Rightarrow> bound \<Rightarrow> bool" where
  "less_bound d Infinity = True"
| "less_bound d (Finite b) = (d < b)"

text \<open>
  The local variables the loops update. \<open>examined\<close> is not a variable of the script: it
  counts how many times the body of the innermost loop has been entered, so that
  statements about how much of the enumeration was looked at can be made. \<open>reported\<close>
  counts the error messages printed about day 2.
\<close>

record search_state =
  best_routes_combination :: "int list list option"
  best_total_distance :: bound
  examined :: nat
  reported :: nat

text \<open>
  What a loop body hands back: \<open>Next\<close> when the loop goes on with the next element
  (the body ended or ran into \<^verbatim>\<open>continue\<close>), \<open>Return\<close> when the function returned.
\<close>

datatype flow = Next search_state | Return search_state "int list list option"

fun for_each :: "(search_state \<Rightarrow> 'a \<Rightarrow> error + flow) \<Rightarrow> search_state \<Rightarrow> 'a list \<Rightarrow> error + flow"
  where
  "for_each body st [] = Inr (Next st)"
| "for_each body st (x # xs) =
     (case body st x of
        Inl e \<Rightarrow> Inl e
      | Inr (Return st' v) \<Rightarrow> Inr (Return st' v)
      | Inr (Next st') \<Rightarrow> for_each body st' xs)"

text \<open>The body of the innermost loop: build the three routes, validate, compare.\<close>

definition try_combination ::
  "globals \<Rightarrow> int \<Rightarrow> int \<Rightarrow> int \<Rightarrow> int list \<Rightarrow> search_state \<Rightarrow> int list \<Rightarrow> error + flow" where
  "try_combination g idx_aeropuerto idx_hotel idx_nasa day1_places st0 day3_places =
     (let st = st0\<lparr>examined := examined st0 + 1\<rparr>;
          day1_route = [idx_aeropuerto] @ day1_places @ [idx_hotel] in
      case calculate_route_time g day1_route of
        Inl e \<Rightarrow> Inl e
      | Inr day1_time \<Rightarrow>
      if day1_time > of_int MAX_TIME_PER_DAY then Inr (Next st)
      else
      let day2_route = [idx_hotel, idx_nasa, idx_hotel] in
      case calculate_route_time g day2_route of
        Inl e \<Rightarrow> Inl e
      | Inr day2_time \<Rightarrow>
      if day2_time > of_int MAX_TIME_PER_DAY
      then Inr (Return (st\<lparr>reported := reported st + 1\<rparr>) None)
      else
      let day3_route = [idx_hotel] @ day3_places @ [idx_aeropuerto] in
      case calculate_route_time g day3_route of
        Inl e \<Rightarrow> Inl e
      | Inr day3_time \<Rightarrow>
      if day3_time > of_int MAX_TIME_PER_DAY then Inr (Next st)
      else
      case calculate_route_distance g day1_route of
        Inl e \<Rightarrow> Inl e
      | Inr distance1 \<Rightarrow>
      case calculate_route_distance g day2_route of
        Inl e \<Rightarrow> Inl e
      | Inr distance2 \<Rightarrow>
      case calculate_route_distance g day3_route of
        Inl e \<Rightarrow> Inl e
      | Inr distance3 \<Rightarrow>
      let current_distance = distance1 + distance2 + distance3 in
      if less_bound current_distance (best_total_distance st)
      then Inr (Next (st\<lparr>best_total_distance := Finite current_distance,
                          best_routes_combination := Some [day1_route, day2_route, day3_route]\<rparr>))
      else Inr (Next st))"

text \<open>The places to visit: every index except the airport, the hotel and NASA.\<close>

definition places_to_visit :: "globals \<Rightarrow> int \<Rightarrow> int \<Rightarrow> int \<Rightarrow> int list" where
  "places_to_visit g idx_aeropuerto idx_hotel idx_nasa =
     filter (\<lambda>i. i \<notin> {idx_aeropuerto, idx_hotel, idx_nasa})
       (map int [0..<length (LOCATIONS g)])"

text \<open>
  The three nested loops. \<open>order xs ys\<close> stands for
  \<^verbatim>\<open>list(set(xs) - set(ys))\<close>. The result is the final state with the returned value.
\<close>

definition search_loops ::
  "(int list \<Rightarrow> int list \<Rightarrow> int list) \<Rightarrow> globals \<Rightarrow> int \<Rightarrow> int \<Rightarrow> int \<Rightarrow> int list \<Rightarrow>
     search_state \<Rightarrow> error + flow" where
  "search_loops order g idx_aeropuerto idx_hotel idx_nasa places st0 =
     for_each
       (\<lambda>st1 day1_size.
          for_each
            (\<lambda>st2 day1_places.
               for_each (try_combination g idx_aeropuerto idx_hotel idx_nasa day1_places) st2
                 (permutations (order places day1_places)))
            st1 (permutations_r places day1_size))
       st0 [1..<length places]"

definition find_best_routes_run ::
  "(int list \<Rightarrow> int list \<Rightarrow> int list) \<Rightarrow> globals \<Rightarrow>
     error + (search_state \<times> int list list option)" where
  "find_best_routes_run order g =
     (case get_location_index g ''Aeropuerto'' of
        Inl e \<Rightarrow> Inl e
      | Inr idx_aeropuerto \<Rightarrow>
      case get_location_index g ''Hotel'' of
        Inl e \<Rightarrow> Inl e
      | Inr idx_hotel \<Rightarrow>
      case get_location_index g ''NASA'' of
        Inl e \<Rightarrow> Inl e
      | Inr idx_nasa \<Rightarrow>
      case search_loops order g idx_aeropuerto idx_hotel idx_nasa
             (places_to_visit g idx_aeropuerto idx_hotel idx_nasa)
             \<lparr>best_routes_combination = None, best_total_distance = Infinity,
              examined = 0, reported = 0\<rparr> of
        Inl e \<Rightarrow> Inl e
      | Inr (Return st v) \<Rightarrow> Inr (st, v)
      | Inr (Next st) \<Rightarrow> Inr (st, best_routes_combination st))"

definition find_best_routes ::
  "(int list \<Rightarrow> int list \<Rightarrow> int list) \<Rightarrow> globals \<Rightarrow> error + int list list option" where
  "find_best_routes order g =
     (case find_best_routes_run order g of Inl e \<Rightarrow> Inl e | Inr (st, v) \<Rightarrow> Inr v)"

text \<open>The elements of \<open>xs\<close> that are not in \<open>ys\<close>, each once, in increasing order.\<close>

definition ascending :: "int list \<Rightarrow> int list \<Rightarrow> int list" where
  "ascending xs ys = sort (remdups (filter (\<lambda>x. x \<notin> set ys) xs))"

subsection \<open>Notions used in the statements\<close>

text \<open>A location index proper: a position of \<^verbatim>\<open>LOCATIONS\<close>.\<close>

definition valid_index :: "globals \<Rightarrow> int \<Rightarrow> bool" where
  "valid_index g i = (0 \<le> i \<and> i < int (length (LOCATIONS g)))"

text \<open>The distance table is square, and both tables have one entry per location.\<close>

definition tables_match :: "globals \<Rightarrow> bool" where
  "tables_match g =
     (length (DISTANCES_KM g) = length (LOCATIONS g) \<and>
      list_all (\<lambda>row. length row = length (LOCATIONS g)) (DISTANCES_KM g) \<and>
      length (TIMES_AT_LOCATION g) = length (LOCATIONS g))"

definition nonnegative_tables :: "globals \<Rightarrow> bool" where
  "nonnegative_tables g =
     (list_all (list_all (\<lambda>d. 0 \<le> d)) (DISTANCES_KM g) \<and>
      list_all (\<lambda>t. 0 \<le> t) (TIMES_AT_LOCATION g))"

text \<open>
  The contract of the distance and time model, on location indices proper:
  the distance between two locations, the travel time at the average speed and the time
  spent at a location.
\<close>

definition distance :: "globals \<Rightarrow> int \<Rightarrow> int \<Rightarrow> int" where
  "distance g a b = DISTANCES_KM g ! nat a ! nat b"

definition travel_time :: "globals \<Rightarrow> int \<Rightarrow> int \<Rightarrow> rat" where
  "travel_time g a b = of_int (distance g a b) / of_int VELOCIDAD_PROMEDIO_KMH"

definition dwell_time :: "globals \<Rightarrow> int \<Rightarrow> rat" where
  "dwell_time g b = of_int (TIMES_AT_LOCATION g ! nat b)"

text \<open>The consecutive pairs of a route.\<close>

definition legs :: "int list \<Rightarrow> (int \<times> int) list" where
  "legs route = zip route (tl route)"

text \<open>
  A requirement on the parameter \<open>order\<close>: it lists the elements of the first list that
  are not in the second, each once, in whatever order.
\<close>

definition set_order_ok :: "(int list \<Rightarrow> int list \<Rightarrow> int list) \<Rightarrow> bool" where
  "set_order_ok order =
     (\<forall>xs ys. distinct (order xs ys) \<and> set (order xs ys) = set xs - set ys)"

text \<open>
  The enumeration of the search, flattened: the ordered day-1 selections of every size from
  1 to one less than the number of places, in the order of the two outer loops, and each
  of them paired with every order of the places left for day 3.
\<close>

definition day1_selections :: "int list \<Rightarrow> int list list" where
  "day1_selections places = concat (map (permutations_r places) [1..<length places])"

definition candidates ::
  "(int list \<Rightarrow> int list \<Rightarrow> int list) \<Rightarrow> int list \<Rightarrow> (int list \<times> int list) list" where
  "candidates order places =
     concat (map (\<lambda>day1_places. map (Pair day1_places) (permutations (order places day1_places)))
               (day1_selections places))"

text \<open>The three routes the loop body builds from a candidate.\<close>

definition day_assignment :: "int \<Rightarrow> int \<Rightarrow> int \<Rightarrow> int list \<times> int list \<Rightarrow> int list list" where
  "day_assignment idx_aeropuerto idx_hotel idx_nasa c =
     [[idx_aeropuerto] @ fst c @ [idx_hotel],
      [idx_hotel, idx_nasa, idx_hotel],
      [idx_hotel] @ snd c @ [idx_aeropuerto]]"

text \<open>The stops of a route strictly between its first and its last element.\<close>

definition intermediate_stops :: "int list \<Rightarrow> int list" where
  "intermediate_stops route = butlast (tl route)"

text \<open>A route whose time is computed and does not exceed the ceiling.\<close>

definition within_ceiling :: "globals \<Rightarrow> int list \<Rightarrow> bool" where
  "within_ceiling g route =
     (case calculate_route_time g route of
        Inl e \<Rightarrow> False
      | Inr t \<Rightarrow> t \<le> of_int MAX_TIME_PER_DAY)"

definition feasible :: "globals \<Rightarrow> int list list \<Rightarrow> bool" where
  "feasible g routes = list_all (within_ceiling g) routes"

text \<open>The sum of the distances of the routes of a day assignment.\<close>

fun total_distance :: "globals \<Rightarrow> int list list \<Rightarrow> error + int" where
  "total_distance g [] = Inr 0"
| "total_distance g (route # routes) =
     (case calculate_route_distance g route of
        Inl e \<Rightarrow> Inl e
      | Inr d \<Rightarrow>
          (case total_distance g routes of Inl e \<Rightarrow> Inl e | Inr s \<Rightarrow> Inr (d + s)))"

text \<open>The body of the innermost loop as a function of the candidate.\<close>

definition try_candidate ::
  "globals \<Rightarrow> int \<Rightarrow> int \<Rightarrow> int \<Rightarrow> search_state \<Rightarrow> int list \<times> int list \<Rightarrow> error + flow" where
  "try_candidate g a h n st c = try_combination g a h n (fst c) st (snd c)"

text \<open>
  No feasible candidate of a list has a total distance below a bound; every feasible
  candidate of a list has a total distance above a given one.
\<close>

definition no_better ::
  "globals \<Rightarrow> int \<Rightarrow> int \<Rightarrow> int \<Rightarrow> bound \<Rightarrow> (int list \<times> int list) list \<Rightarrow> bool" where
  "no_better g a h n b cs =
     (\<forall>c\<in>set cs. feasible g (day_assignment a h n c) \<longrightarrow>
        (\<exists>y. total_distance g (day_assignment a h n c) = Inr y \<and> \<not> less_bound y b))"

definition all_longer ::
  "globals \<Rightarrow> int \<Rightarrow> int \<Rightarrow> int \<Rightarrow> int \<Rightarrow> (int list \<times> int list) list \<Rightarrow> bool" where
  "all_longer g a h n x cs =
     (\<forall>c\<in>set cs. feasible g (day_assignment a h n c) \<longrightarrow>
        (\<exists>y. total_distance g (day_assignment a h n c) = Inr y \<and> x < y))"

text \<open>The candidates whose day-1 route exceeds the ceiling.\<close>

definition day1_exceeds :: "globals \<Rightarrow> int \<Rightarrow> int \<Rightarrow> int list \<times> int list \<Rightarrow> bool" where
  "day1_exceeds g idx_aeropuerto idx_hotel c =
     (\<not> within_ceiling g ([idx_aeropuerto] @ fst c @ [idx_hotel]))"

text \<open>
  The tables of the script with two visits made longer: twelve hours at Daikin Park
  (index 1) and eleven hours at NASA (index 4).
\<close>

definition slow_visits :: globals where
  "slow_visits = reference\<lparr>TIMES_AT_LOCATION := [2, 12, 3, 5, 11, 2, 3, 1]\<rparr>"

text \<open>
  The tables of the script restricted to five locations: the airport, Daikin Park, NASA,
  the Toyota Center and the hotel. With two free places the search enumerates two
  combinations, and the symmetry of the distances gives both the same total distance.
\<close>

definition two_places :: globals where
  "two_places =
     \<lparr>DISTANCES_KM =
        [[0, 30, 40, 32, 35],
         [30, 0, 45, 15, 5],
         [40, 45, 0, 38, 35],
         [32, 15, 38, 0, 1],
         [35, 5, 35, 1, 0]],
      TIMES_AT_LOCATION = [2, 3, 8, 2, 1],
      LOCATIONS = [''Aeropuerto'', ''Daikin Park'', ''NASA'', ''Toyota Center'', ''Hotel'']\<rparr>"

text \<open>
  The same five locations with the hotel 30 km from NASA and a visit of ten hours there:
  the fixed day then takes twelve hours exactly.
\<close>

definition nasa_all_day :: globals where
  "nasa_all_day =
     two_places
       \<lparr>DISTANCES_KM :=
          [[0, 30, 40, 32, 35],
           [30, 0, 45, 15, 5],
           [40, 45, 0, 38, 30],
           [32, 15, 38, 0, 1],
           [35, 5, 30, 1, 0]],
        TIMES_AT_LOCATION := [2, 3, 10, 2, 1]\<rparr>"

section \<open>Properties\<close>

subsection \<open>Permutations\<close>

lemma picks_mset: "(y, ys) \<in> set (picks xs) \<Longrightarrow> mset xs = add_mset y (mset ys)"
  by (induction xs arbitrary: y ys) auto

lemma picks_complete: "y \<in> set xs \<Longrightarrow> \<exists>ys. (y, ys) \<in> set (picks xs)"
proof (induction xs)
  case Nil
  then show ?case by simp
next
  case (Cons x xs)
  show ?case
  proof (cases "y = x")
    case True
    then show ?thesis by auto
  next
    case False
    with Cons obtain ys where "(y, ys) \<in> set (picks xs)" by auto
    then have "(y, x # ys) \<in> set (picks (x # xs))" by force
    then show ?thesis by blast
  qed
qed

lemma permutations_r_sound:
  "ys \<in> set (permutations_r xs r) \<Longrightarrow> length ys = r \<and> mset ys \<subseteq># mset xs"
proof (induction r arbitrary: xs ys)
  case 0
  then show ?case by simp
next
  case (Suc r)
  from Suc.prems obtain y rest zs where
    p: "(y, rest) \<in> set (picks xs)" and z: "zs \<in> set (permutations_r rest r)" and ys: "ys = y # zs"
    by auto
  from Suc.IH [OF z] have "length zs = r" "mset zs \<subseteq># mset rest" by auto
  with picks_mset [OF p] ys show ?case by simp
qed

lemma picks_set: "(y, ys) \<in> set (picks xs) \<Longrightarrow> set xs = insert y (set ys)"
proof -
  assume "(y, ys) \<in> set (picks xs)"
  then have "mset xs = add_mset y (mset ys)" by (rule picks_mset)
  then have "set_mset (mset xs) = set_mset (add_mset y (mset ys))" by simp
  then show ?thesis by simp
qed

lemma permutations_r_complete:
  "distinct ys \<Longrightarrow> set ys \<subseteq> set xs \<Longrightarrow> ys \<in> set (permutations_r xs (length ys))"
proof (induction ys arbitrary: xs)
  case Nil
  show ?case by simp
next
  case (Cons y ys)
  from Cons.prems have yin: "y \<in> set xs" and d: "distinct ys" and ynot: "y \<notin> set ys"
    and sub: "set ys \<subseteq> set xs" by simp_all
  from picks_complete [OF yin] obtain rest where p: "(y, rest) \<in> set (picks xs)" ..
  have "set xs = insert y (set rest)"
    using picks_set [OF p] .
  with sub ynot have "set ys \<subseteq> set rest" by auto
  with d have "ys \<in> set (permutations_r rest (length ys))" by (rule Cons.IH)
  then have "y # ys \<in> set (case (y, rest) of (z, zs) \<Rightarrow> map ((#) z) (permutations_r zs (length ys)))"
    by simp
  with p show ?case
    unfolding length_Cons permutations_r.simps set_concat set_map by blast
qed

lemma permutations_sound:
  "ys \<in> set (permutations xs) \<Longrightarrow> mset ys = mset xs"
proof (rule ccontr)
  assume "ys \<in> set (permutations xs)"
  then have len: "length ys = length xs" and sub: "mset ys \<subseteq># mset xs"
    using permutations_r_sound [of ys xs "length xs"] by (simp_all add: permutations_def)
  assume "mset ys \<noteq> mset xs"
  with sub have "mset ys \<subset># mset xs" by (simp add: subset_mset.less_le)
  then have "size (mset ys) < size (mset xs)" by (rule mset_subset_size)
  with len show False by simp
qed

lemma permutations_complete:
  "distinct xs \<Longrightarrow> distinct ys \<Longrightarrow> set ys = set xs \<Longrightarrow> ys \<in> set (permutations xs)"
proof -
  assume a: "distinct xs" "distinct ys" "set ys = set xs"
  then have "length ys = length xs"
    using distinct_card [of xs] distinct_card [of ys] by simp
  with permutations_r_complete [of ys xs] a show ?thesis
    by (simp add: permutations_def)
qed

subsection \<open>Nested loops as one loop\<close>

lemma for_each_append:
  "for_each body st (xs @ ys) =
     (case for_each body st xs of
        Inl e \<Rightarrow> Inl e
      | Inr (Return st' v) \<Rightarrow> Inr (Return st' v)
      | Inr (Next st') \<Rightarrow> for_each body st' ys)"
  by (induction xs arbitrary: st) (auto split: sum.splits flow.splits)

lemma for_each_Pair:
  "for_each (\<lambda>st (x, y). body x st y) st (map (Pair x) ys) = for_each (body x) st ys"
  by (induction ys arbitrary: st) (auto split: sum.splits flow.splits)

lemma for_each_concat:
  "for_each (\<lambda>st x. for_each body st (gen x)) st xs = for_each body st (concat (map gen xs))"
proof (induction xs arbitrary: st)
  case Nil
  show ?case by simp
next
  case (Cons x xs)
  show ?case
  proof (cases "for_each body st (gen x)")
    case (Inl e)
    then show ?thesis by (simp add: for_each_append)
  next
    case (Inr fl)
    then show ?thesis using Cons.IH by (cases fl) (simp_all add: for_each_append)
  qed
qed

lemma for_each_concat_Pair:
  "for_each (\<lambda>st x. for_each (body x) st (gen x)) st xs =
   for_each (\<lambda>st (x, y). body x st y) st (concat (map (\<lambda>x. map (Pair x) (gen x)) xs))"
proof (induction xs arbitrary: st)
  case Nil
  show ?case by simp
next
  case (Cons x xs)
  show ?case
  proof (cases "for_each (body x) st (gen x)")
    case (Inl e)
    then show ?thesis by (simp add: for_each_append for_each_Pair)
  next
    case (Inr fl)
    then show ?thesis using Cons.IH by (cases fl) (simp_all add: for_each_append for_each_Pair)
  qed
qed

subsection \<open>Array reads and route metrics\<close>

lemma np_get_valid: "0 \<le> i \<Longrightarrow> i < int (length xs) \<Longrightarrow> np_get xs i = Inr (xs ! nat i)"
  by (simp add: np_get_def)

lemma np_get2_valid:
  assumes "tables_match g" "valid_index g a" "valid_index g b"
  shows "np_get2 (DISTANCES_KM g) a b = Inr (distance g a b)"
proof -
  from assms have a: "0 \<le> a" "a < int (length (DISTANCES_KM g))"
    by (simp_all add: tables_match_def valid_index_def)
  then have "nat a < length (DISTANCES_KM g)" by simp
  then have "DISTANCES_KM g ! nat a \<in> set (DISTANCES_KM g)" by (rule nth_mem)
  with assms(1) have "length (DISTANCES_KM g ! nat a) = length (LOCATIONS g)"
    by (simp add: tables_match_def list_all_iff)
  with assms(3) have b: "0 \<le> b" "b < int (length (DISTANCES_KM g ! nat a))"
    by (simp_all add: valid_index_def)
  show ?thesis
    by (simp add: np_get2_def np_get_valid [OF a] np_get_valid [OF b] distance_def)
qed

lemma times_valid:
  assumes "tables_match g" "valid_index g b"
  shows "np_get (TIMES_AT_LOCATION g) b = Inr (TIMES_AT_LOCATION g ! nat b)"
  using assms by (simp add: np_get_valid tables_match_def valid_index_def)

lemma route_time_loop_sum:
  shows "tables_match g \<Longrightarrow> list_all (valid_index g) route \<Longrightarrow>
    route_time_loop g acc route =
      Inr (acc + sum_list (map (\<lambda>(a, b). travel_time g a b + dwell_time g b) (legs route)))"
proof (induction g acc route rule: route_time_loop.induct)
  case (1 g total_time idx_from idx_to rest)
  from "1.prems" have m: "tables_match g" and v: "valid_index g idx_from" "valid_index g idx_to"
    and r: "list_all (valid_index g) (idx_to # rest)" by simp_all
  have d: "np_get2 (DISTANCES_KM g) idx_from idx_to = Inr (distance g idx_from idx_to)"
    using m v by (rule np_get2_valid)
  have t: "np_get (TIMES_AT_LOCATION g) idx_to = Inr (TIMES_AT_LOCATION g ! nat idx_to)"
    using m v(2) by (rule times_valid)
  have "route_time_loop g total_time (idx_from # idx_to # rest) =
      route_time_loop g (total_time + of_int (distance g idx_from idx_to) / of_int VELOCIDAD_PROMEDIO_KMH
         + of_int (TIMES_AT_LOCATION g ! nat idx_to)) (idx_to # rest)"
    by (simp add: d t)
  also have "\<dots> = Inr (total_time + of_int (distance g idx_from idx_to) / of_int VELOCIDAD_PROMEDIO_KMH
         + of_int (TIMES_AT_LOCATION g ! nat idx_to)
         + sum_list (map (\<lambda>(a, b). travel_time g a b + dwell_time g b) (legs (idx_to # rest))))"
    using d t m r by (rule "1.IH")
  finally show ?case
    by (simp add: legs_def travel_time_def dwell_time_def)
qed (simp_all add: legs_def)

lemma route_distance_loop_sum:
  shows "tables_match g \<Longrightarrow> list_all (valid_index g) route \<Longrightarrow>
    route_distance_loop g acc route =
      Inr (acc + sum_list (map (\<lambda>(a, b). distance g a b) (legs route)))"
proof (induction g acc route rule: route_distance_loop.induct)
  case (1 g total_distance idx_from idx_to rest)
  from "1.prems" have m: "tables_match g" and v: "valid_index g idx_from" "valid_index g idx_to"
    and r: "list_all (valid_index g) (idx_to # rest)" by simp_all
  have d: "np_get2 (DISTANCES_KM g) idx_from idx_to = Inr (distance g idx_from idx_to)"
    using m v by (rule np_get2_valid)
  have "route_distance_loop g total_distance (idx_from # idx_to # rest) =
      route_distance_loop g (total_distance + distance g idx_from idx_to) (idx_to # rest)"
    by (simp add: d)
  also have "\<dots> = Inr (total_distance + distance g idx_from idx_to
         + sum_list (map (\<lambda>(a, b). distance g a b) (legs (idx_to # rest))))"
    using d m r by (rule "1.IH")
  finally show ?case
    by (simp add: legs_def)
qed (simp_all add: legs_def)

lemma reference_tables_match: "tables_match reference"
  by (simp add: tables_match_def reference_def)

lemma reference_nonnegative: "nonnegative_tables reference"
  by (simp add: nonnegative_tables_def reference_def)

lemma legs_snoc:
  "legs (route @ [x]) = legs route @ (if route = [] then [] else [(last route, x)])"
proof (induction route)
  case Nil
  show ?case by (simp add: legs_def)
next
  case (Cons a route)
  then show ?case by (cases route) (simp_all add: legs_def)
qed

lemma valid_index_nat: "valid_index g i \<Longrightarrow> nat i < length (LOCATIONS g)"
  unfolding valid_index_def by arith

lemma distance_nonnegative:
  assumes "tables_match g" "nonnegative_tables g" "valid_index g a" "valid_index g b"
  shows "0 \<le> distance g a b"
proof -
  from assms(1) valid_index_nat [OF assms(3)] have a: "nat a < length (DISTANCES_KM g)"
    by (simp add: tables_match_def)
  then have row: "DISTANCES_KM g ! nat a \<in> set (DISTANCES_KM g)" by (rule nth_mem)
  with assms(1) have "length (DISTANCES_KM g ! nat a) = length (LOCATIONS g)"
    by (simp add: tables_match_def list_all_iff)
  with valid_index_nat [OF assms(4)] have "nat b < length (DISTANCES_KM g ! nat a)"
    by simp
  then have "DISTANCES_KM g ! nat a ! nat b \<in> set (DISTANCES_KM g ! nat a)" by (rule nth_mem)
  with row assms(2) show ?thesis
    by (simp add: nonnegative_tables_def list_all_iff distance_def)
qed

lemma dwell_time_nonnegative:
  assumes "tables_match g" "nonnegative_tables g" "valid_index g b"
  shows "0 \<le> dwell_time g b"
proof -
  from assms(1) valid_index_nat [OF assms(3)] have "nat b < length (TIMES_AT_LOCATION g)"
    by (simp add: tables_match_def)
  then have "TIMES_AT_LOCATION g ! nat b \<in> set (TIMES_AT_LOCATION g)" by (rule nth_mem)
  with assms(2) show ?thesis
    by (simp add: nonnegative_tables_def list_all_iff dwell_time_def)
qed

subsection \<open>The loop body and the loop\<close>

lemma feasible_day_assignment:
  "feasible g (day_assignment a h n (d1, d3)) =
     (within_ceiling g (a # d1 @ [h]) \<and> within_ceiling g [h, n, h] \<and>
      within_ceiling g (h # d3 @ [a]))"
  by (simp add: feasible_def day_assignment_def)

lemma total_distance_day_assignment:
  "calculate_route_distance g (a # d1 @ [h]) = Inr x1 \<Longrightarrow>
   calculate_route_distance g [h, n, h] = Inr x2 \<Longrightarrow>
   calculate_route_distance g (h # d3 @ [a]) = Inr x3 \<Longrightarrow>
   total_distance g (day_assignment a h n (d1, d3)) = Inr (x1 + x2 + x3)"
  by (simp add: day_assignment_def)

lemma try_combination_Return:
  assumes "try_combination g a h n d1 st d3 = Inr (Return st' v)"
  shows "v = None \<and> within_ceiling g (a # d1 @ [h]) \<and> \<not> within_ceiling g [h, n, h] \<and>
         st' = st\<lparr>examined := examined st + 1, reported := reported st + 1\<rparr>"
  using assms
  by (auto simp: try_combination_def Let_def within_ceiling_def split: sum.splits if_splits)

lemma try_combination_Next_counters:
  assumes "try_combination g a h n d1 st d3 = Inr (Next st')"
  shows "examined st' = examined st + 1 \<and> reported st' = reported st"
  using assms
  by (auto simp: try_combination_def Let_def split: sum.splits if_splits)

lemma try_combination_Next_infeasible:
  assumes "try_combination g a h n d1 st d3 = Inr (Next st')"
    and "\<not> feasible g (day_assignment a h n (d1, d3))"
  shows "best_routes_combination st' = best_routes_combination st \<and>
         best_total_distance st' = best_total_distance st"
  using assms
  by (auto simp: try_combination_def Let_def within_ceiling_def feasible_def day_assignment_def
      split: sum.splits if_splits)

lemma try_combination_Next_total:
  assumes "try_combination g a h n d1 st d3 = Inr (Next st')"
    and "feasible g (day_assignment a h n (d1, d3))"
  shows "\<exists>x. total_distance g (day_assignment a h n (d1, d3)) = Inr x"
  using assms
  by (auto simp: try_combination_def Let_def within_ceiling_def feasible_def day_assignment_def
      split: sum.splits if_splits)

lemma try_combination_Next_feasible:
  assumes "try_combination g a h n d1 st d3 = Inr (Next st')"
    and "feasible g (day_assignment a h n (d1, d3))"
    and "total_distance g (day_assignment a h n (d1, d3)) = Inr x"
  shows "if less_bound x (best_total_distance st)
         then best_routes_combination st' = Some (day_assignment a h n (d1, d3)) \<and>
              best_total_distance st' = Finite x
         else best_routes_combination st' = best_routes_combination st \<and>
              best_total_distance st' = best_total_distance st"
  using assms
  by (auto simp: try_combination_def Let_def within_ceiling_def feasible_def day_assignment_def
      add.assoc
      split: sum.splits if_splits)

lemma search_loops_flat:
  "search_loops order g a h n places st =
     for_each (try_candidate g a h n) st (candidates order places)"
proof -
  have e: "(\<lambda>st (d1, d3). try_combination g a h n d1 st d3) = try_candidate g a h n"
    by (simp add: fun_eq_iff try_candidate_def)
  have "search_loops order g a h n places st =
      for_each (\<lambda>st2 day1_places.
          for_each (try_combination g a h n day1_places) st2
            (permutations (order places day1_places)))
        st (day1_selections places)"
    unfolding search_loops_def day1_selections_def by (rule for_each_concat)
  also have "\<dots> = for_each (\<lambda>st (d1, d3). try_combination g a h n d1 st d3) st
      (candidates order places)"
    unfolding candidates_def by (rule for_each_concat_Pair)
  finally show ?thesis by (simp only: e)
qed

lemma less_bound_trans: "x < y \<Longrightarrow> less_bound y b \<Longrightarrow> less_bound x b"
  by (cases b) simp_all

lemma less_bound_between: "less_bound x b \<Longrightarrow> \<not> less_bound y b \<Longrightarrow> x < y"
  by (cases b) simp_all

lemma no_better_Finite:
  "no_better g a h n (Finite x) cs =
     (\<forall>c\<in>set cs. feasible g (day_assignment a h n c) \<longrightarrow>
        (\<exists>y. total_distance g (day_assignment a h n c) = Inr y \<and> x \<le> y))"
  by (simp add: no_better_def not_less)

lemma for_each_try_Return:
  "for_each (try_candidate g a h n) st cs = Inr (Return st' v) \<Longrightarrow> v = None"
proof (induction cs arbitrary: st)
  case Nil
  then show ?case by simp
next
  case (Cons c cs)
  show ?case
  proof (cases "try_candidate g a h n st c")
    case (Inl e)
    with Cons.prems show ?thesis by simp
  next
    case (Inr fl)
    show ?thesis
    proof (cases fl)
      case (Next st1)
      with Inr Cons.prems have "for_each (try_candidate g a h n) st1 cs = Inr (Return st' v)"
        by simp
      then show ?thesis by (rule Cons.IH)
    next
      case (Return st1 w)
      with Inr Cons.prems have "try_combination g a h n (fst c) st (snd c) = Inr (Return st' v)"
        by (simp add: try_candidate_def)
      then show ?thesis using try_combination_Return by blast
    qed
  qed
qed

lemma for_each_try_Next:
  assumes "for_each (try_candidate g a h n) st cs = Inr (Next st')"
  shows "(best_routes_combination st' = best_routes_combination st \<and>
          best_total_distance st' = best_total_distance st \<and>
          no_better g a h n (best_total_distance st) cs)
       \<or> (\<exists>pre c post x. cs = pre @ c # post \<and>
            feasible g (day_assignment a h n c) \<and>
            total_distance g (day_assignment a h n c) = Inr x \<and>
            less_bound x (best_total_distance st) \<and>
            best_routes_combination st' = Some (day_assignment a h n c) \<and>
            best_total_distance st' = Finite x \<and>
            all_longer g a h n x pre \<and> no_better g a h n (Finite x) post)"
  using assms
proof (induction cs arbitrary: st)
  case Nil
  then show ?case by (simp add: no_better_def)
next
  case (Cons c cs)
  let ?A = "day_assignment a h n"
  from Cons.prems obtain st1 where
    b: "try_candidate g a h n st c = Inr (Next st1)" and
    r: "for_each (try_candidate g a h n) st1 cs = Inr (Next st')"
    by (auto split: sum.splits flow.splits)
  from b have b': "try_combination g a h n (fst c) st (snd c) = Inr (Next st1)"
    by (simp add: try_candidate_def)
  note IH = Cons.IH [OF r]
  have improved: ?case
    if y: "feasible g (?A c)" "total_distance g (?A c) = Inr y"
      "less_bound y (best_total_distance st)"
      and st1: "best_routes_combination st1 = Some (?A c)" "best_total_distance st1 = Finite y"
    for y
    using IH
  proof (elim disjE exE conjE)
    assume "best_routes_combination st' = best_routes_combination st1"
      "best_total_distance st' = best_total_distance st1"
      "no_better g a h n (best_total_distance st1) cs"
    with y st1 have "c # cs = [] @ c # cs \<and> feasible g (?A c) \<and>
        total_distance g (?A c) = Inr y \<and> less_bound y (best_total_distance st) \<and>
        best_routes_combination st' = Some (?A c) \<and> best_total_distance st' = Finite y \<and>
        all_longer g a h n y [] \<and> no_better g a h n (Finite y) cs"
      by (simp add: all_longer_def)
    then show ?case by blast
  next
    fix pre c' post x
    assume h: "cs = pre @ c' # post" "feasible g (?A c')" "total_distance g (?A c') = Inr x"
      "less_bound x (best_total_distance st1)" "best_routes_combination st' = Some (?A c')"
      "best_total_distance st' = Finite x" "all_longer g a h n x pre"
      "no_better g a h n (Finite x) post"
    from h(4) st1 have xy: "x < y" by simp
    from xy y(3) have "less_bound x (best_total_distance st)" by (rule less_bound_trans)
    moreover from xy y h(7) have "all_longer g a h n x (c # pre)"
      by (simp add: all_longer_def)
    moreover from h(1) have "c # cs = (c # pre) @ c' # post" by simp
    ultimately show ?case using h by blast
  qed
  have unchanged: ?case
    if st1: "best_routes_combination st1 = best_routes_combination st"
      "best_total_distance st1 = best_total_distance st"
      and c: "feasible g (?A c) \<longrightarrow>
        (\<exists>y. total_distance g (?A c) = Inr y \<and> \<not> less_bound y (best_total_distance st))"
    using IH
  proof (elim disjE exE conjE)
    assume "best_routes_combination st' = best_routes_combination st1"
      "best_total_distance st' = best_total_distance st1"
      "no_better g a h n (best_total_distance st1) cs"
    with st1 c show ?case by (simp add: no_better_def)
  next
    fix pre c' post x
    assume h: "cs = pre @ c' # post" "feasible g (?A c')" "total_distance g (?A c') = Inr x"
      "less_bound x (best_total_distance st1)" "best_routes_combination st' = Some (?A c')"
      "best_total_distance st' = Finite x" "all_longer g a h n x pre"
      "no_better g a h n (Finite x) post"
    from h(4) st1 have lb: "less_bound x (best_total_distance st)" by simp
    with c have "feasible g (?A c) \<longrightarrow> (\<exists>y. total_distance g (?A c) = Inr y \<and> x < y)"
      using less_bound_between by blast
    with h(7) have "all_longer g a h n x (c # pre)"
      by (simp add: all_longer_def)
    moreover from h(1) have "c # cs = (c # pre) @ c' # post" by simp
    ultimately show ?case using h lb by blast
  qed
  show ?case
  proof (cases "feasible g (?A c)")
    case False
    with try_combination_Next_infeasible [OF b'] show ?thesis
      by (intro unchanged) simp_all
  next
    case True
    then have f: "feasible g (day_assignment a h n (fst c, snd c))" by simp
    from try_combination_Next_total [OF b' f] obtain y where
      y: "total_distance g (?A c) = Inr y" by auto
    note upd = try_combination_Next_feasible [OF b' f, of y]
    show ?thesis
    proof (cases "less_bound y (best_total_distance st)")
      case True
      with upd y have "best_routes_combination st1 = Some (?A c)"
        "best_total_distance st1 = Finite y" by simp_all
      with \<open>feasible g (?A c)\<close> y True show ?thesis by (intro improved)
    next
      case False
      with upd y have "best_routes_combination st1 = best_routes_combination st"
        "best_total_distance st1 = best_total_distance st" by simp_all
      moreover from y False have "feasible g (?A c) \<longrightarrow>
        (\<exists>y. total_distance g (?A c) = Inr y \<and> \<not> less_bound y (best_total_distance st))"
        by simp
      ultimately show ?thesis by (intro unchanged)
    qed
  qed
qed

subsection \<open>The enumeration and the result\<close>

lemma list_index_range:
  "list_index xs x = Inr i \<Longrightarrow> 0 \<le> i \<and> i < int (length xs)"
proof (induction xs arbitrary: i)
  case Nil
  then show ?case by simp
next
  case (Cons y ys)
  show ?case
  proof (cases "y = x")
    case True
    with Cons.prems show ?thesis by simp
  next
    case False
    with Cons.prems obtain j where j: "list_index ys x = Inr j" and i: "i = j + 1"
      by (auto split: sum.splits)
    from Cons.IH [OF j] i show ?thesis by simp
  qed
qed

lemma list_index_member: "x \<in> set xs \<Longrightarrow> \<exists>i. list_index xs x = Inr i"
  by (induction xs) auto

lemma get_location_index_valid:
  "get_location_index g name = Inr i \<Longrightarrow> valid_index g i"
  using list_index_range [of "LOCATIONS g" name i]
  by (simp add: get_location_index_def valid_index_def)

lemma distinct_places_to_visit: "distinct (places_to_visit g a h n)"
  by (simp add: places_to_visit_def distinct_map)

lemma set_places_to_visit:
  "set (places_to_visit g a h n) = {i. valid_index g i} - {a, h, n}"
proof -
  have "int ` {0..<length (LOCATIONS g)} = {i. valid_index g i}"
    by (auto simp: valid_index_def image_int_atLeastLessThan)
  then show ?thesis by (auto simp: places_to_visit_def)
qed

lemma distinct_sub_mset:
  assumes "mset xs \<subseteq># mset ys" and "distinct ys"
  shows "distinct xs"
proof -
  have "count (mset xs) a = (if a \<in> set xs then 1 else 0)" for a
  proof -
    have "count (mset xs) a \<le> count (mset ys) a"
      using assms(1) by (rule mset_subset_eq_count)
    moreover have "count (mset ys) a \<le> 1"
      using assms(2) by (simp add: distinct_count_atmost_1)
    ultimately have le: "count (mset xs) a \<le> 1" by simp
    show ?thesis
    proof (cases "a \<in> set xs")
      case True
      then have "count (mset xs) a \<noteq> 0" by simp
      with le have "count (mset xs) a = 1" by arith
      with True show ?thesis by simp
    next
      case False
      then show ?thesis by simp
    qed
  qed
  then show ?thesis by (simp only: distinct_count_atmost_1) simp
qed

lemma set_sub_mset: "mset xs \<subseteq># mset ys \<Longrightarrow> set xs \<subseteq> set ys"
  using set_mset_mono [of "mset xs" "mset ys"] by simp

lemma day1_selections_iff:
  assumes "distinct places"
  shows "d1 \<in> set (day1_selections places) \<longleftrightarrow>
    1 \<le> length d1 \<and> length d1 < length places \<and> distinct d1 \<and> set d1 \<subseteq> set places"
proof
  assume "d1 \<in> set (day1_selections places)"
  then obtain k where k: "1 \<le> k" "k < length places" and d: "d1 \<in> set (permutations_r places k)"
    by (auto simp: day1_selections_def)
  from permutations_r_sound [OF d] have "length d1 = k" and sub: "mset d1 \<subseteq># mset places"
    by simp_all
  from sub assms have "distinct d1" by (rule distinct_sub_mset)
  moreover from sub have "set d1 \<subseteq> set places" by (rule set_sub_mset)
  ultimately show "1 \<le> length d1 \<and> length d1 < length places \<and> distinct d1 \<and> set d1 \<subseteq> set places"
    using k \<open>length d1 = k\<close> by simp
next
  assume a: "1 \<le> length d1 \<and> length d1 < length places \<and> distinct d1 \<and> set d1 \<subseteq> set places"
  then have "d1 \<in> set (permutations_r places (length d1))"
    by (simp add: permutations_r_complete)
  moreover from a have "length d1 \<in> set [1..<length places]" by simp
  ultimately show "d1 \<in> set (day1_selections places)"
    unfolding day1_selections_def set_concat set_map by blast
qed


lemma candidates_iff:
  assumes "set_order_ok order" and "distinct places"
  shows "(d1, d3) \<in> set (candidates order places) \<longleftrightarrow>
    1 \<le> length d1 \<and> length d1 < length places \<and> distinct d1 \<and> set d1 \<subseteq> set places \<and>
    distinct d3 \<and> set d3 = set places - set d1"
proof -
  from assms(1) have o: "distinct (order places d1)" "set (order places d1) = set places - set d1"
    by (simp_all add: set_order_ok_def)
  have "(d1, d3) \<in> set (candidates order places) \<longleftrightarrow>
      d1 \<in> set (day1_selections places) \<and> d3 \<in> set (permutations (order places d1))"
    by (auto simp: candidates_def)
  moreover have "d3 \<in> set (permutations (order places d1)) \<longleftrightarrow>
      distinct d3 \<and> set d3 = set places - set d1"
  proof
    assume "d3 \<in> set (permutations (order places d1))"
    then have m: "mset d3 = mset (order places d1)" by (rule permutations_sound)
    then have "set d3 = set (order places d1)" by (rule mset_eq_setD)
    moreover have "distinct d3" using mset_eq_imp_distinct_iff [OF m] o(1) by simp
    ultimately show "distinct d3 \<and> set d3 = set places - set d1" using o(2) by simp
  next
    assume "distinct d3 \<and> set d3 = set places - set d1"
    with o show "d3 \<in> set (permutations (order places d1))"
      by (simp add: permutations_complete)
  qed
  ultimately show ?thesis
    by (simp add: day1_selections_iff [OF assms(2)])
qed

lemma candidate_partition:
  assumes "set_order_ok order" and "distinct places"
    and "(d1, d3) \<in> set (candidates order places)"
  shows "mset d1 + mset d3 = mset places"
    and "1 \<le> length d1" and "length d1 \<le> length places - 1" and "1 \<le> length d3"
proof -
  from assms(3) have c: "1 \<le> length d1" "length d1 < length places" "distinct d1"
    "set d1 \<subseteq> set places" "distinct d3" "set d3 = set places - set d1"
    by (simp_all add: candidates_iff [OF assms(1,2)])
  then have "distinct (d1 @ d3)" and "set (d1 @ d3) = set places" by auto
  with assms(2) have "mset (d1 @ d3) = mset places"
    by (simp only: set_eq_iff_mset_eq_distinct)
  then show m: "mset d1 + mset d3 = mset places" by simp
  then have "size (mset d1 + mset d3) = size (mset places)" by simp
  then have "length d1 + length d3 = length places" by simp
  with c(2) show "1 \<le> length d3" by simp
  from c show "1 \<le> length d1" and "length d1 \<le> length places - 1" by simp_all
qed

lemma intermediate_stops_day_assignment:
  "intermediate_stops (day_assignment a h n c ! 0) = fst c"
  "intermediate_stops (day_assignment a h n c ! 2) = snd c"
  by (simp_all add: intermediate_stops_def day_assignment_def butlast_append)

lemma find_best_routes_Some:
  assumes "find_best_routes order g = Inr (Some rs)"
    and "get_location_index g ''Aeropuerto'' = Inr a"
    and "get_location_index g ''Hotel'' = Inr h"
    and "get_location_index g ''NASA'' = Inr n"
  shows "\<exists>pre c post x. candidates order (places_to_visit g a h n) = pre @ c # post \<and>
     rs = day_assignment a h n c \<and> feasible g rs \<and> total_distance g rs = Inr x \<and>
     all_longer g a h n x pre \<and> no_better g a h n (Finite x) post"
proof -
  let ?st0 = "\<lparr>best_routes_combination = None, best_total_distance = Infinity,
              examined = 0, reported = 0\<rparr>"
  let ?cs = "candidates order (places_to_visit g a h n)"
  from assms obtain st v where
    run: "find_best_routes_run order g = Inr (st, v)" and v: "v = Some rs"
    by (auto simp: find_best_routes_def split: sum.splits)
  from run assms(2-4) have
    "(case for_each (try_candidate g a h n) ?st0 ?cs of
        Inl e \<Rightarrow> Inl e
      | Inr (Return st v) \<Rightarrow> Inr (st, v)
      | Inr (Next st) \<Rightarrow> Inr (st, best_routes_combination st)) = Inr (st, v)"
    by (simp add: find_best_routes_run_def search_loops_flat)
  then consider
      (ret) "for_each (try_candidate g a h n) ?st0 ?cs = Inr (Return st v)"
    | (nxt) "for_each (try_candidate g a h n) ?st0 ?cs = Inr (Next st)"
        "best_routes_combination st = v"
    by (auto split: sum.splits flow.splits)
  then show ?thesis
  proof cases
    case ret
    then have "v = None" by (rule for_each_try_Return)
    with v show ?thesis by simp
  next
    case nxt
    from for_each_try_Next [OF nxt(1)] show ?thesis
    proof (elim disjE exE conjE)
      assume "best_routes_combination st = best_routes_combination ?st0"
      with nxt(2) v show ?thesis by simp
    next
      fix pre c post x
      assume c: "candidates order (places_to_visit g a h n) = pre @ c # post"
        "feasible g (day_assignment a h n c)"
        "total_distance g (day_assignment a h n c) = Inr x"
        "all_longer g a h n x pre" "no_better g a h n (Finite x) post"
        and "best_routes_combination st = Some (day_assignment a h n c)"
      with nxt(2) v have "rs = day_assignment a h n c" by simp
      with c show ?thesis
        by (intro exI [of _ pre] exI [of _ c] exI [of _ post] exI [of _ x]) simp
    qed
  qed
qed

subsection \<open>The order of sets; replacing the best\<close>

lemma ascending_ok: "set_order_ok ascending"
  by (auto simp: set_order_ok_def ascending_def)

lemma best_replaced_only_when_strictly_less:
  assumes "try_combination g a h n d1 st d3 = Inr (Next st')"
    and "best_routes_combination st' \<noteq> best_routes_combination st \<or>
         best_total_distance st' \<noteq> best_total_distance st"
  shows "\<exists>x. total_distance g (day_assignment a h n (d1, d3)) = Inr x \<and>
          less_bound x (best_total_distance st) \<and>
          best_total_distance st' = Finite x \<and>
          best_routes_combination st' = Some (day_assignment a h n (d1, d3))"
proof -
  from assms(2) try_combination_Next_infeasible [OF assms(1)]
  have f: "feasible g (day_assignment a h n (d1, d3))" by blast
  from try_combination_Next_total [OF assms(1) f] obtain x where
    x: "total_distance g (day_assignment a h n (d1, d3)) = Inr x" ..
  from try_combination_Next_feasible [OF assms(1) f x] assms(2) x show ?thesis
    by (cases "less_bound x (best_total_distance st)") simp_all
qed

subsection \<open>When the fixed day exceeds the ceiling\<close>

lemma calculate_route_time_valid:
  assumes "tables_match g" and "list_all (valid_index g) route"
  shows "\<exists>t. calculate_route_time g route = Inr t"
  using route_time_loop_sum [OF assms, of 0] by (simp add: calculate_route_time_def)

lemma candidate_day1_valid:
  assumes "set_order_ok order"
    and "get_location_index g ''Aeropuerto'' = Inr a"
    and "get_location_index g ''Hotel'' = Inr h"
    and "c \<in> set (candidates order (places_to_visit g a h n))"
  shows "list_all (valid_index g) (a # fst c @ [h])"
proof -
  obtain d1 d3 where c: "c = (d1, d3)" by (cases c)
  with assms(4) have "set d1 \<subseteq> set (places_to_visit g a h n)"
    by (simp add: candidates_iff [OF assms(1) distinct_places_to_visit])
  then have "\<forall>i\<in>set d1. valid_index g i"
    by (auto simp: set_places_to_visit)
  with get_location_index_valid [OF assms(2)] get_location_index_valid [OF assms(3)] c
  show ?thesis by (simp add: list_all_iff)
qed

lemma try_combination_day2_exceeds:
  assumes "calculate_route_time g [h, n, h] = Inr t2" and "t2 > of_int MAX_TIME_PER_DAY"
    and "calculate_route_time g (a # d1 @ [h]) = Inr t1"
  shows "try_combination g a h n d1 st d3 =
     (if within_ceiling g (a # d1 @ [h])
      then Inr (Return (st\<lparr>examined := examined st + 1, reported := reported st + 1\<rparr>) None)
      else Inr (Next (st\<lparr>examined := examined st + 1\<rparr>)))"
  using assms by (simp add: try_combination_def Let_def within_ceiling_def not_le)

lemma for_each_day2_exceeds:
  assumes "calculate_route_time g [h, n, h] = Inr t2" and "t2 > of_int MAX_TIME_PER_DAY"
  shows "\<forall>c\<in>set cs. \<exists>t1. calculate_route_time g (a # fst c @ [h]) = Inr t1 \<Longrightarrow>
    for_each (try_candidate g a h n) st cs =
     (if list_all (day1_exceeds g a h) cs
      then Inr (Next (st\<lparr>examined := examined st + length cs\<rparr>))
      else Inr (Return (st\<lparr>examined := examined st + length (takeWhile (day1_exceeds g a h) cs) + 1,
                           reported := reported st + 1\<rparr>) None))"
proof (induction cs arbitrary: st)
  case Nil
  show ?case by simp
next
  case (Cons c cs)
  from Cons.prems obtain t1 where t1: "calculate_route_time g (a # fst c @ [h]) = Inr t1"
    by auto
  from Cons.prems have rest: "\<forall>c\<in>set cs. \<exists>t1. calculate_route_time g (a # fst c @ [h]) = Inr t1"
    by simp
  note step = try_combination_day2_exceeds [OF assms t1, of st "snd c"]
  show ?case
  proof (cases "day1_exceeds g a h c")
    case True
    with step have "try_candidate g a h n st c = Inr (Next (st\<lparr>examined := examined st + 1\<rparr>))"
      by (simp add: try_candidate_def day1_exceeds_def)
    with True Cons.IH [OF rest, of "st\<lparr>examined := examined st + 1\<rparr>"] show ?thesis
      by simp
  next
    case False
    with step have "try_candidate g a h n st c =
        Inr (Return (st\<lparr>examined := examined st + 1, reported := reported st + 1\<rparr>) None)"
      by (simp add: try_candidate_def day1_exceeds_def)
    with False show ?thesis by simp
  qed
qed

subsection \<open>When the search returns a day assignment\<close>

lemma route_time_then_distance:
  "route_time_loop g acc route = Inr t \<Longrightarrow> \<exists>d. route_distance_loop g acc' route = Inr d"
proof (induction g acc route arbitrary: acc' t rule: route_time_loop.induct)
  case (1 g total_time idx_from idx_to rest)
  from "1.prems" obtain d where d: "np_get2 (DISTANCES_KM g) idx_from idx_to = Inr d"
    by (auto split: sum.splits)
  from "1.prems" d obtain w where w: "np_get (TIMES_AT_LOCATION g) idx_to = Inr w"
    by (auto split: sum.splits)
  from "1.prems" d w have
    "route_time_loop g (total_time + of_int d / of_int VELOCIDAD_PROMEDIO_KMH + of_int w)
       (idx_to # rest) = Inr t"
    by simp
  from "1.IH" [OF d w this, of "acc' + d"] d show ?case by simp
qed simp_all

lemma time_then_distance:
  "calculate_route_time g route = Inr t \<Longrightarrow> \<exists>d. calculate_route_distance g route = Inr d"
  unfolding calculate_route_time_def calculate_route_distance_def
  by (rule route_time_then_distance)

lemma try_combination_within_ceiling:
  assumes "calculate_route_time g (a # d1 @ [h]) = Inr t1" and "t1 \<le> of_int MAX_TIME_PER_DAY"
    and "calculate_route_time g [h, n, h] = Inr t2" and "t2 \<le> of_int MAX_TIME_PER_DAY"
    and "calculate_route_time g (h # d3 @ [a]) = Inr t3" and "t3 \<le> of_int MAX_TIME_PER_DAY"
  shows "\<exists>x. total_distance g (day_assignment a h n (d1, d3)) = Inr x \<and>
    try_combination g a h n d1 st d3 =
      Inr (Next (if less_bound x (best_total_distance st)
                 then st\<lparr>examined := examined st + 1,
                         best_total_distance := Finite x,
                         best_routes_combination := Some (day_assignment a h n (d1, d3))\<rparr>
                 else st\<lparr>examined := examined st + 1\<rparr>))"
proof -
  from time_then_distance [OF assms(1)] obtain x1 where
    x1: "calculate_route_distance g (a # d1 @ [h]) = Inr x1" ..
  from time_then_distance [OF assms(3)] obtain x2 where
    x2: "calculate_route_distance g [h, n, h] = Inr x2" ..
  from time_then_distance [OF assms(5)] obtain x3 where
    x3: "calculate_route_distance g (h # d3 @ [a]) = Inr x3" ..
  have "total_distance g (day_assignment a h n (d1, d3)) = Inr (x1 + x2 + x3)"
    using x1 x2 x3 by (rule total_distance_day_assignment)
  moreover have "try_combination g a h n d1 st d3 =
      Inr (Next (if less_bound (x1 + x2 + x3) (best_total_distance st)
                 then st\<lparr>examined := examined st + 1,
                         best_total_distance := Finite (x1 + x2 + x3),
                         best_routes_combination := Some (day_assignment a h n (d1, d3))\<rparr>
                 else st\<lparr>examined := examined st + 1\<rparr>))"
    using assms x1 x2 x3
    by (simp add: try_combination_def Let_def not_less [symmetric] day_assignment_def)
  ultimately show ?thesis by blast
qed

lemma try_combination_total:
  assumes "calculate_route_time g (a # d1 @ [h]) = Inr t1"
    and "calculate_route_time g [h, n, h] = Inr t2"
    and "calculate_route_time g (h # d3 @ [a]) = Inr t3"
  shows "\<exists>fl. try_combination g a h n d1 st d3 = Inr fl"
proof -
  from time_then_distance [OF assms(1)] obtain x1 where
    x1: "calculate_route_distance g (a # d1 @ [h]) = Inr x1" ..
  from time_then_distance [OF assms(2)] obtain x2 where
    x2: "calculate_route_distance g [h, n, h] = Inr x2" ..
  from time_then_distance [OF assms(3)] obtain x3 where
    x3: "calculate_route_distance g (h # d3 @ [a]) = Inr x3" ..
  show ?thesis using assms x1 x2 x3
    by (simp add: try_combination_def Let_def)
qed

lemma candidate_day3_valid:
  assumes "set_order_ok order"
    and "get_location_index g ''Aeropuerto'' = Inr a"
    and "get_location_index g ''Hotel'' = Inr h"
    and "c \<in> set (candidates order (places_to_visit g a h n))"
  shows "list_all (valid_index g) (h # snd c @ [a])"
proof -
  obtain d1 d3 where c: "c = (d1, d3)" by (cases c)
  with assms(4) have "set d3 \<subseteq> set (places_to_visit g a h n)"
    by (simp add: candidates_iff [OF assms(1) distinct_places_to_visit])
  then have "\<forall>i\<in>set d3. valid_index g i"
    by (auto simp: set_places_to_visit)
  with get_location_index_valid [OF assms(2)] get_location_index_valid [OF assms(3)] c
  show ?thesis by (simp add: list_all_iff)
qed

lemma try_candidate_total:
  assumes "tables_match g" and "set_order_ok order"
    and "get_location_index g ''Aeropuerto'' = Inr a"
    and "get_location_index g ''Hotel'' = Inr h"
    and "get_location_index g ''NASA'' = Inr n"
    and "c \<in> set (candidates order (places_to_visit g a h n))"
  shows "\<exists>fl. try_candidate g a h n st c = Inr fl"
proof -
  have "list_all (valid_index g) [h, n, h]"
    using get_location_index_valid [OF assms(4)] get_location_index_valid [OF assms(5)]
    by simp
  from calculate_route_time_valid [OF assms(1) this] obtain t2 where
    t2: "calculate_route_time g [h, n, h] = Inr t2" ..
  from calculate_route_time_valid [OF assms(1) candidate_day1_valid [OF assms(2-4,6)]]
  obtain t1 where t1: "calculate_route_time g (a # fst c @ [h]) = Inr t1" ..
  from calculate_route_time_valid [OF assms(1) candidate_day3_valid [OF assms(2-4,6)]]
  obtain t3 where t3: "calculate_route_time g (h # snd c @ [a]) = Inr t3" ..
  from try_combination_total [OF t1 t2 t3] show ?thesis
    by (simp add: try_candidate_def)
qed

lemma for_each_total:
  "(\<And>st c. c \<in> set cs \<Longrightarrow> \<exists>fl. body st c = Inr fl) \<Longrightarrow> \<exists>fl. for_each body st cs = Inr fl"
proof (induction cs arbitrary: st)
  case Nil
  show ?case by simp
next
  case (Cons c cs)
  from Cons.prems [of c st] obtain fl where fl: "body st c = Inr fl" by auto
  show ?case
  proof (cases fl)
    case (Next st1)
    have "\<exists>fl. for_each body st1 cs = Inr fl"
      by (rule Cons.IH) (rule Cons.prems, simp)
    with fl Next show ?thesis by simp
  next
    case (Return st1 v)
    with fl show ?thesis by simp
  qed
qed

lemma for_each_try_Return_day2:
  "for_each (try_candidate g a h n) st cs = Inr (Return st' v) \<Longrightarrow>
     \<not> within_ceiling g [h, n, h]"
proof (induction cs arbitrary: st)
  case Nil
  then show ?case by simp
next
  case (Cons c cs)
  show ?case
  proof (cases "try_candidate g a h n st c")
    case (Inl e)
    with Cons.prems show ?thesis by simp
  next
    case (Inr fl)
    show ?thesis
    proof (cases fl)
      case (Next st1)
      with Inr Cons.prems have "for_each (try_candidate g a h n) st1 cs = Inr (Return st' v)"
        by simp
      then show ?thesis by (rule Cons.IH)
    next
      case (Return st1 w)
      with Inr have "try_combination g a h n (fst c) st (snd c) = Inr (Return st1 w)"
        by (simp add: try_candidate_def)
      then show ?thesis using try_combination_Return by blast
    qed
  qed
qed

lemma find_best_routes_returns:
  assumes "tables_match g" and "set_order_ok order"
    and "get_location_index g ''Aeropuerto'' = Inr a"
    and "get_location_index g ''Hotel'' = Inr h"
    and "get_location_index g ''NASA'' = Inr n"
    and "c \<in> set (candidates order (places_to_visit g a h n))"
    and "feasible g (day_assignment a h n c)"
  shows "\<exists>best. find_best_routes order g = Inr (Some best)"
proof -
  let ?st0 = "\<lparr>best_routes_combination = None, best_total_distance = Infinity,
              examined = 0, reported = 0\<rparr>"
  let ?cs = "candidates order (places_to_visit g a h n)"
  have "\<exists>fl. for_each (try_candidate g a h n) ?st0 ?cs = Inr fl"
    by (rule for_each_total) (rule try_candidate_total [OF assms(1-5)])
  then obtain fl where fl: "for_each (try_candidate g a h n) ?st0 ?cs = Inr fl" ..
  from assms(7) have day2: "within_ceiling g [h, n, h]"
    by (simp add: feasible_def day_assignment_def)
  show ?thesis
  proof (cases fl)
    case (Return st v)
    with fl for_each_try_Return_day2 [of g a h n ?st0 ?cs st v] day2 show ?thesis by simp
  next
    case (Next st)
    from for_each_try_Next [OF fl [unfolded Next]]
    have "\<exists>best. best_routes_combination st = Some best"
    proof (elim disjE exE conjE)
      assume "no_better g a h n (best_total_distance ?st0) ?cs"
      with assms(6,7) show ?thesis by (auto simp: no_better_def)
    next
      fix c' assume "best_routes_combination st = Some (day_assignment a h n c')"
      then show ?thesis by blast
    qed
    with fl Next assms(3-5) show ?thesis
      by (auto simp: find_best_routes_def find_best_routes_run_def search_loops_flat)
  qed
qed

subsection \<open>The script's tables, evaluated\<close>

text \<open>
  The search on the tables of the script, with the sets listed in increasing order: 480
  combinations are examined and the best one has a total distance of 192 km.
\<close>

lemma reference_indices:
  "get_location_index reference ''Aeropuerto'' = Inr 0"
  "get_location_index reference ''Hotel'' = Inr 7"
  "get_location_index reference ''NASA'' = Inr 4"
  by (simp_all add: get_location_index_def reference_def)

lemma reference_places: "places_to_visit reference 0 7 4 = [1, 2, 3, 5, 6]"
  by (simp add: places_to_visit_def reference_def upt_rec)

lemma reference_run:
  "find_best_routes_run ascending reference =
     Inr (\<lparr>best_routes_combination = Some [[0, 2, 3, 5, 7], [7, 4, 7], [7, 1, 6, 0]],
          best_total_distance = Finite 192, examined = 480, reported = 0\<rparr>,
          Some [[0, 2, 3, 5, 7], [7, 4, 7], [7, 1, 6, 0]])"
  by code_simp

lemma reference_result:
  "find_best_routes ascending reference = Inr (Some [[0, 2, 3, 5, 7], [7, 4, 7], [7, 1, 6, 0]])"
  by (simp add: find_best_routes_def reference_run)

lemmas route_eval = calculate_route_time_def calculate_route_distance_def np_get2_def np_get_def
  VELOCIDAD_PROMEDIO_KMH_def MAX_TIME_PER_DAY_def

lemma reference_best_times:
  "calculate_route_time reference [0, 2, 3, 5, 7] = Inr (697 / 60)"
  "calculate_route_time reference [7, 4, 7] = Inr (61 / 6)"
  "calculate_route_time reference [7, 1, 6, 0] = Inr (113 / 12)"
  by (simp_all add: route_eval reference_def)

lemma reference_best_total:
  "total_distance reference [[0, 2, 3, 5, 7], [7, 4, 7], [7, 1, 6, 0]] = Inr 192"
  by (simp add: route_eval reference_def)

lemma reference_other_feasible:
  "feasible reference (day_assignment 0 7 4 ([1, 3, 5], [2, 6]))"
  by (simp add: feasible_def within_ceiling_def day_assignment_def route_eval reference_def)

lemma reference_other_total:
  "total_distance reference (day_assignment 0 7 4 ([1, 3, 5], [2, 6])) = Inr 207"
  by (simp add: day_assignment_def route_eval reference_def)

lemma slow_visits_tables_match: "tables_match slow_visits"
  by (simp add: tables_match_def slow_visits_def reference_def)

lemma slow_visits_indices:
  "get_location_index slow_visits ''Aeropuerto'' = Inr 0"
  "get_location_index slow_visits ''Hotel'' = Inr 7"
  "get_location_index slow_visits ''NASA'' = Inr 4"
  by (simp_all add: get_location_index_def slow_visits_def reference_def)

lemma slow_visits_day2: "calculate_route_time slow_visits [7, 4, 7] = Inr (79 / 6)"
  by (simp add: route_eval slow_visits_def reference_def)

text \<open>The two five-location tables, evaluated.\<close>

lemma two_places_tables_match: "tables_match two_places"
  by (simp add: tables_match_def two_places_def)

lemma two_places_indices:
  "get_location_index two_places ''Aeropuerto'' = Inr 0"
  "get_location_index two_places ''Hotel'' = Inr 4"
  "get_location_index two_places ''NASA'' = Inr 2"
  by (simp_all add: get_location_index_def two_places_def)

lemma two_places_places: "places_to_visit two_places 0 4 2 = [1, 3]"
  by (simp add: places_to_visit_def two_places_def upt_rec)

lemma two_places_candidates:
  "candidates ascending (places_to_visit two_places 0 4 2) = [([1], [3]), ([3], [1])]"
  unfolding two_places_places by code_simp

lemma two_places_feasible:
  "feasible two_places (day_assignment 0 4 2 ([1], [3]))"
  "feasible two_places (day_assignment 0 4 2 ([3], [1]))"
  by (simp_all add: feasible_def within_ceiling_def day_assignment_def route_eval two_places_def)

lemma two_places_totals:
  "total_distance two_places (day_assignment 0 4 2 ([1], [3])) = Inr 138"
  "total_distance two_places (day_assignment 0 4 2 ([3], [1])) = Inr 138"
  by (simp_all add: day_assignment_def route_eval two_places_def)

lemma nasa_all_day_tables_match: "tables_match nasa_all_day"
  by (simp add: tables_match_def nasa_all_day_def two_places_def)

lemma nasa_all_day_indices:
  "get_location_index nasa_all_day ''Aeropuerto'' = Inr 0"
  "get_location_index nasa_all_day ''Hotel'' = Inr 4"
  "get_location_index nasa_all_day ''NASA'' = Inr 2"
  by (simp_all add: get_location_index_def nasa_all_day_def two_places_def)

lemma nasa_all_day_places: "places_to_visit nasa_all_day 0 4 2 = [1, 3]"
  by (simp add: places_to_visit_def nasa_all_day_def two_places_def upt_rec)

lemma nasa_all_day_times:
  "calculate_route_time nasa_all_day ([0] @ [1] @ [4]) = Inr (55 / 12)"
  "calculate_route_time nasa_all_day [4, 2, 4] = Inr 12"
  "calculate_route_time nasa_all_day ([4] @ [3] @ [0]) = Inr (91 / 20)"
  by (simp_all add: route_eval nasa_all_day_def two_places_def)

lemma nasa_all_day_result:
  "find_best_routes ascending nasa_all_day = Inr (Some [[0, 1, 4], [4, 2, 4], [4, 3, 0]])"
  by code_simp

lemma nasa_all_day_first_combination:
  "try_combination nasa_all_day 0 4 2 [1]
     \<lparr>best_routes_combination = None, best_total_distance = Infinity,
      examined = 0, reported = 0\<rparr> [3] =
   Inr (Next \<lparr>best_routes_combination = Some [[0, 1, 4], [4, 2, 4], [4, 3, 0]],
              best_total_distance = Finite 128, examined = 1, reported = 0\<rparr>)"
  by code_simp

section \<open>The claims\<close>

text \<open>
  Claim C1. If \<^verbatim>\<open>find_best_routes\<close> returns a day assignment, its total distance (the
  sum of the distances of its three routes) is at most the total distance of every day
  assignment the search can enumerate whose three route times are within the ceiling: every
  size of the day-1 selection from 1 to the number of free places minus 1, every ordered
  selection of that many distinct free places for day 1, and every order of the remaining
  free places for day 3.
\<close>

theorem returned_total_distance_is_least:
  assumes "set_order_ok order"
    and "find_best_routes order g = Inr (Some best)"
    and "get_location_index g ''Aeropuerto'' = Inr a"
    and "get_location_index g ''Hotel'' = Inr h"
    and "get_location_index g ''NASA'' = Inr n"
    and "1 \<le> length d1" and "length d1 \<le> length (places_to_visit g a h n) - 1"
    and "distinct d1" and "set d1 \<subseteq> set (places_to_visit g a h n)"
    and "distinct d3" and "set d3 = set (places_to_visit g a h n) - set d1"
    and "feasible g (day_assignment a h n (d1, d3))"
  shows "\<exists>x y. total_distance g best = Inr x \<and>
               total_distance g (day_assignment a h n (d1, d3)) = Inr y \<and> x \<le> y"
proof -
  let ?places = "places_to_visit g a h n"
  from assms(6,7) have "length d1 < length ?places" by arith
  with assms(6,8-11) have "(d1, d3) \<in> set (candidates order ?places)"
    by (simp add: candidates_iff [OF assms(1) distinct_places_to_visit])
  moreover from find_best_routes_Some [OF assms(2-5)] obtain pre c post x where
    r: "candidates order ?places = pre @ c # post" "best = day_assignment a h n c"
      "total_distance g best = Inr x" "all_longer g a h n x pre"
      "no_better g a h n (Finite x) post"
    by blast
  ultimately consider "(d1, d3) \<in> set pre" | "(d1, d3) = c" | "(d1, d3) \<in> set post"
    by auto
  then show ?thesis
  proof cases
    case 1
    with r(4) assms(12) obtain y where
      "total_distance g (day_assignment a h n (d1, d3)) = Inr y" "x < y"
      unfolding all_longer_def by blast
    with r(3) show ?thesis by simp
  next
    case 2
    with r(2,3) show ?thesis by simp
  next
    case 3
    with r(5) assms(12) obtain y where
      "total_distance g (day_assignment a h n (d1, d3)) = Inr y" "x \<le> y"
      unfolding no_better_Finite by blast
    with r(3) show ?thesis by simp
  qed
qed

theorem returned_total_distance_is_least_witness:
  "find_best_routes ascending reference = Inr (Some [[0, 2, 3, 5, 7], [7, 4, 7], [7, 1, 6, 0]]) \<and>
   feasible reference (day_assignment 0 7 4 ([1, 3, 5], [2, 6])) \<and>
   total_distance reference [[0, 2, 3, 5, 7], [7, 4, 7], [7, 1, 6, 0]] = Inr 192 \<and>
   total_distance reference (day_assignment 0 7 4 ([1, 3, 5], [2, 6])) = Inr 207 \<and>
   (192 :: int) \<le> 207"
proof -
  have "\<exists>x y. total_distance reference [[0, 2, 3, 5, 7], [7, 4, 7], [7, 1, 6, 0]] = Inr x \<and>
      total_distance reference (day_assignment 0 7 4 ([1, 3, 5], [2, 6])) = Inr y \<and> x \<le> y"
    by (rule returned_total_distance_is_least
        [OF ascending_ok reference_result reference_indices _ _ _ _ _ _ reference_other_feasible])
      (auto simp: reference_places)
  with reference_result reference_other_feasible reference_best_total reference_other_total
  show ?thesis by simp
qed

text \<open>
  Claim C2. When \<^verbatim>\<open>find_best_routes\<close> returns a day assignment, the time of each of
  its three routes is computed and is at most \<^verbatim>\<open>MAX_TIME_PER_DAY\<close>. A time equal to
  the ceiling is allowed, since a combination is rejected only when a time is strictly
  greater than the ceiling: for a combination whose three times are at most the ceiling,
  equal to it included, the loop body goes on to the comparison of distances and records
  the combination when its distance is below the best so far; and when such a combination
  is among those the search enumerates, \<^verbatim>\<open>find_best_routes\<close> returns a day
  assignment.
\<close>

theorem returned_routes_within_ceiling:
  "(find_best_routes order g = Inr (Some best) \<longrightarrow>
      (\<exists>day1_route day2_route day3_route day1_time day2_time day3_time.
         best = [day1_route, day2_route, day3_route] \<and>
         calculate_route_time g day1_route = Inr day1_time \<and>
         day1_time \<le> of_int MAX_TIME_PER_DAY \<and>
         calculate_route_time g day2_route = Inr day2_time \<and>
         day2_time \<le> of_int MAX_TIME_PER_DAY \<and>
         calculate_route_time g day3_route = Inr day3_time \<and>
         day3_time \<le> of_int MAX_TIME_PER_DAY)) \<and>
   (calculate_route_time g ([a] @ d1 @ [h]) = Inr t1 \<and> t1 \<le> of_int MAX_TIME_PER_DAY \<and>
    calculate_route_time g [h, n, h] = Inr t2 \<and> t2 \<le> of_int MAX_TIME_PER_DAY \<and>
    calculate_route_time g ([h] @ d3 @ [a]) = Inr t3 \<and> t3 \<le> of_int MAX_TIME_PER_DAY \<longrightarrow>
      (\<exists>x. total_distance g (day_assignment a h n (d1, d3)) = Inr x \<and>
         try_combination g a h n d1 st d3 =
           Inr (Next (if less_bound x (best_total_distance st)
                      then st\<lparr>examined := examined st + 1,
                              best_total_distance := Finite x,
                              best_routes_combination := Some (day_assignment a h n (d1, d3))\<rparr>
                      else st\<lparr>examined := examined st + 1\<rparr>))) \<and>
      (tables_match g \<and> set_order_ok order \<and>
       get_location_index g ''Aeropuerto'' = Inr a \<and>
       get_location_index g ''Hotel'' = Inr h \<and>
       get_location_index g ''NASA'' = Inr n \<and>
       1 \<le> length d1 \<and> length d1 \<le> length (places_to_visit g a h n) - 1 \<and>
       distinct d1 \<and> set d1 \<subseteq> set (places_to_visit g a h n) \<and>
       distinct d3 \<and> set d3 = set (places_to_visit g a h n) - set d1 \<longrightarrow>
         (\<exists>returned. find_best_routes order g = Inr (Some returned))))"
proof (intro conjI impI)
  assume r: "find_best_routes order g = Inr (Some best)"
  then obtain a' h' n' where
    "get_location_index g ''Aeropuerto'' = Inr a'"
    "get_location_index g ''Hotel'' = Inr h'"
    "get_location_index g ''NASA'' = Inr n'"
    by (auto simp: find_best_routes_def find_best_routes_run_def split: sum.splits)
  from find_best_routes_Some [OF r this] obtain c where
    "best = day_assignment a' h' n' c" "feasible g best" by blast
  then show "\<exists>day1_route day2_route day3_route day1_time day2_time day3_time.
         best = [day1_route, day2_route, day3_route] \<and>
         calculate_route_time g day1_route = Inr day1_time \<and>
         day1_time \<le> of_int MAX_TIME_PER_DAY \<and>
         calculate_route_time g day2_route = Inr day2_time \<and>
         day2_time \<le> of_int MAX_TIME_PER_DAY \<and>
         calculate_route_time g day3_route = Inr day3_time \<and>
         day3_time \<le> of_int MAX_TIME_PER_DAY"
    by (auto simp: day_assignment_def feasible_def within_ceiling_def split: sum.splits)
next
  assume t: "calculate_route_time g ([a] @ d1 @ [h]) = Inr t1 \<and> t1 \<le> of_int MAX_TIME_PER_DAY \<and>
    calculate_route_time g [h, n, h] = Inr t2 \<and> t2 \<le> of_int MAX_TIME_PER_DAY \<and>
    calculate_route_time g ([h] @ d3 @ [a]) = Inr t3 \<and> t3 \<le> of_int MAX_TIME_PER_DAY"
  then have t': "calculate_route_time g (a # d1 @ [h]) = Inr t1" "t1 \<le> of_int MAX_TIME_PER_DAY"
    "calculate_route_time g [h, n, h] = Inr t2" "t2 \<le> of_int MAX_TIME_PER_DAY"
    "calculate_route_time g (h # d3 @ [a]) = Inr t3" "t3 \<le> of_int MAX_TIME_PER_DAY"
    by simp_all
  from t' show "\<exists>x. total_distance g (day_assignment a h n (d1, d3)) = Inr x \<and>
         try_combination g a h n d1 st d3 =
           Inr (Next (if less_bound x (best_total_distance st)
                      then st\<lparr>examined := examined st + 1,
                              best_total_distance := Finite x,
                              best_routes_combination := Some (day_assignment a h n (d1, d3))\<rparr>
                      else st\<lparr>examined := examined st + 1\<rparr>))"
    by (rule try_combination_within_ceiling)
  assume e: "tables_match g \<and> set_order_ok order \<and>
       get_location_index g ''Aeropuerto'' = Inr a \<and>
       get_location_index g ''Hotel'' = Inr h \<and>
       get_location_index g ''NASA'' = Inr n \<and>
       1 \<le> length d1 \<and> length d1 \<le> length (places_to_visit g a h n) - 1 \<and>
       distinct d1 \<and> set d1 \<subseteq> set (places_to_visit g a h n) \<and>
       distinct d3 \<and> set d3 = set (places_to_visit g a h n) - set d1"
  then have "length d1 < length (places_to_visit g a h n)" by arith
  with e have c: "(d1, d3) \<in> set (candidates order (places_to_visit g a h n))"
    by (simp add: candidates_iff [OF _ distinct_places_to_visit])
  from t' have f: "feasible g (day_assignment a h n (d1, d3))"
    by (simp add: feasible_def day_assignment_def within_ceiling_def)
  from e have "tables_match g" "set_order_ok order"
    "get_location_index g ''Aeropuerto'' = Inr a"
    "get_location_index g ''Hotel'' = Inr h"
    "get_location_index g ''NASA'' = Inr n" by simp_all
  then show "\<exists>returned. find_best_routes order g = Inr (Some returned)"
    using c f by (rule find_best_routes_returns)
qed

theorem returned_routes_within_ceiling_witness:
  "find_best_routes ascending reference = Inr (Some [[0, 2, 3, 5, 7], [7, 4, 7], [7, 1, 6, 0]]) \<and>
   calculate_route_time reference [0, 2, 3, 5, 7] = Inr (697 / 60) \<and>
   (697 / 60 :: rat) \<le> of_int MAX_TIME_PER_DAY \<and>
   calculate_route_time reference [7, 4, 7] = Inr (61 / 6) \<and>
   (61 / 6 :: rat) \<le> of_int MAX_TIME_PER_DAY \<and>
   calculate_route_time reference [7, 1, 6, 0] = Inr (113 / 12) \<and>
   (113 / 12 :: rat) \<le> of_int MAX_TIME_PER_DAY \<and>
   tables_match nasa_all_day \<and> set_order_ok ascending \<and>
   places_to_visit nasa_all_day 0 4 2 = [1, 3] \<and>
   calculate_route_time nasa_all_day ([0] @ [1] @ [4]) = Inr (55 / 12) \<and>
   (55 / 12 :: rat) \<le> of_int MAX_TIME_PER_DAY \<and>
   calculate_route_time nasa_all_day [4, 2, 4] = Inr 12 \<and>
   (12 :: rat) \<le> of_int MAX_TIME_PER_DAY \<and>
   calculate_route_time nasa_all_day ([4] @ [3] @ [0]) = Inr (91 / 20) \<and>
   (91 / 20 :: rat) \<le> of_int MAX_TIME_PER_DAY \<and>
   try_combination nasa_all_day 0 4 2 [1]
     \<lparr>best_routes_combination = None, best_total_distance = Infinity,
      examined = 0, reported = 0\<rparr> [3] =
     Inr (Next \<lparr>best_routes_combination = Some [[0, 1, 4], [4, 2, 4], [4, 3, 0]],
                best_total_distance = Finite 128, examined = 1, reported = 0\<rparr>) \<and>
   find_best_routes ascending nasa_all_day = Inr (Some [[0, 1, 4], [4, 2, 4], [4, 3, 0]])"
proof -
  note on_reference = returned_routes_within_ceiling
    [where order = ascending and g = reference
       and best = "[[0, 2, 3, 5, 7], [7, 4, 7], [7, 1, 6, 0]]"]
  note at_ceiling = returned_routes_within_ceiling
    [where order = ascending and g = nasa_all_day
       and best = "[[0, 1, 4], [4, 2, 4], [4, 3, 0]]"
       and a = 0 and h = 4 and n = 2 and ?d1.0 = "[1]" and ?d3.0 = "[3]"
       and ?t1.0 = "55 / 12" and ?t2.0 = 12 and ?t3.0 = "91 / 20"
       and st = "\<lparr>best_routes_combination = None, best_total_distance = Infinity,
                  examined = 0, reported = 0\<rparr>"]
  have "(697 / 60 :: rat) \<le> of_int MAX_TIME_PER_DAY" "(61 / 6 :: rat) \<le> of_int MAX_TIME_PER_DAY"
    "(113 / 12 :: rat) \<le> of_int MAX_TIME_PER_DAY" "(55 / 12 :: rat) \<le> of_int MAX_TIME_PER_DAY"
    "(12 :: rat) \<le> of_int MAX_TIME_PER_DAY" "(91 / 20 :: rat) \<le> of_int MAX_TIME_PER_DAY"
    by (simp_all add: MAX_TIME_PER_DAY_def)
  with on_reference at_ceiling show ?thesis
    by (simp only: reference_result reference_best_times nasa_all_day_times
        nasa_all_day_result nasa_all_day_first_combination nasa_all_day_tables_match
        nasa_all_day_places ascending_ok simp_thms)
qed

text \<open>
  Claim C3. For every day assignment the search builds from a candidate, and for the day
  assignment it returns, the intermediate stops of the day-1 route and of the day-3 route
  together are exactly the free places, each free place occurring once in one of the two
  routes: the multiset of the stops is the multiset of the list of free places, which has no
  repetition and whose elements are the location indices other than the airport, the hotel
  and NASA.
\<close>

theorem open_days_partition_the_free_locations:
  assumes "set_order_ok order"
    and "get_location_index g ''Aeropuerto'' = Inr a"
    and "get_location_index g ''Hotel'' = Inr h"
    and "get_location_index g ''NASA'' = Inr n"
    and "(\<exists>c\<in>set (candidates order (places_to_visit g a h n)). routes = day_assignment a h n c)
         \<or> find_best_routes order g = Inr (Some routes)"
  shows "mset (intermediate_stops (routes ! 0)) + mset (intermediate_stops (routes ! 2)) =
           mset (places_to_visit g a h n) \<and>
         distinct (places_to_visit g a h n) \<and>
         set (places_to_visit g a h n) = {i. valid_index g i} - {a, h, n}"
proof -
  let ?places = "places_to_visit g a h n"
  have "\<exists>c\<in>set (candidates order ?places). routes = day_assignment a h n c"
    using assms(5)
  proof
    assume "find_best_routes order g = Inr (Some routes)"
    from find_best_routes_Some [OF this assms(2-4)] obtain pre c post where
      "candidates order ?places = pre @ c # post" "routes = day_assignment a h n c"
      by blast
    then show ?thesis by auto
  qed
  then obtain d1 d3 where c: "(d1, d3) \<in> set (candidates order ?places)"
    and r: "routes = day_assignment a h n (d1, d3)" by auto
  from candidate_partition(1) [OF assms(1) distinct_places_to_visit c] r
  have "mset (intermediate_stops (routes ! 0)) + mset (intermediate_stops (routes ! 2)) =
      mset ?places"
    by (simp add: intermediate_stops_day_assignment)
  then show ?thesis
    by (simp add: distinct_places_to_visit set_places_to_visit)
qed

theorem open_days_partition_the_free_locations_witness:
  "find_best_routes ascending reference = Inr (Some [[0, 2, 3, 5, 7], [7, 4, 7], [7, 1, 6, 0]]) \<and>
   mset (intermediate_stops [0, 2, 3, 5, 7]) + mset (intermediate_stops [7, 1, 6, 0]) =
     mset [1, 2, 3, 5, 6] \<and>
   places_to_visit reference 0 7 4 = [1, 2, 3, 5, 6]"
  using open_days_partition_the_free_locations
    [OF ascending_ok reference_indices disjI2 [OF reference_result]]
  by (simp add: reference_result reference_places)

text \<open>
  Claim C4, as amended. If the time of the fixed day (hotel, NASA, hotel) exceeds the
  ceiling, \<^verbatim>\<open>find_best_routes\<close> returns no solution. It does not do so up front:
  the fixed day is tested inside the enumeration, for a combination whose day-1 route is
  within the ceiling. So the function returns at the first such combination, after having
  examined every combination before it and printed its message once; and when the day-1
  route of every combination exceeds the ceiling, it examines all of them, prints nothing
  and returns no solution at the end of the loops.
\<close>

theorem infeasible_fixed_day_gives_no_solution:
  assumes "tables_match g" and "set_order_ok order"
    and "get_location_index g ''Aeropuerto'' = Inr a"
    and "get_location_index g ''Hotel'' = Inr h"
    and "get_location_index g ''NASA'' = Inr n"
    and "calculate_route_time g [h, n, h] = Inr t"
    and "t > of_int MAX_TIME_PER_DAY"
  shows "find_best_routes order g = Inr None \<and>
    (\<exists>st. find_best_routes_run order g = Inr (st, None) \<and>
       best_routes_combination st = None \<and>
       (if list_all (day1_exceeds g a h) (candidates order (places_to_visit g a h n))
        then examined st = length (candidates order (places_to_visit g a h n)) \<and>
             reported st = 0
        else examined st =
               length (takeWhile (day1_exceeds g a h)
                         (candidates order (places_to_visit g a h n))) + 1 \<and>
             reported st = 1))"
proof -
  let ?cs = "candidates order (places_to_visit g a h n)"
  let ?st0 = "\<lparr>best_routes_combination = None, best_total_distance = Infinity,
              examined = 0, reported = 0\<rparr>"
  have "\<forall>c\<in>set ?cs. \<exists>t1. calculate_route_time g (a # fst c @ [h]) = Inr t1"
    using calculate_route_time_valid [OF assms(1) candidate_day1_valid [OF assms(2-4)]]
    by blast
  note loop = for_each_day2_exceeds [OF assms(6,7) this, where st = "?st0"]
  show ?thesis
  proof (cases "list_all (day1_exceeds g a h) ?cs")
    case True
    with loop assms(3-5) show ?thesis
      by (simp add: find_best_routes_def find_best_routes_run_def search_loops_flat)
  next
    case False
    with loop assms(3-5) show ?thesis
      by (simp add: find_best_routes_def find_best_routes_run_def search_loops_flat)
  qed
qed

theorem infeasible_fixed_day_gives_no_solution_witness:
  "calculate_route_time slow_visits [7, 4, 7] = Inr (79 / 6) \<and>
   (79 / 6 :: rat) > of_int MAX_TIME_PER_DAY \<and>
   find_best_routes ascending slow_visits = Inr None"
proof -
  have "(79 / 6 :: rat) > of_int MAX_TIME_PER_DAY" by (simp add: MAX_TIME_PER_DAY_def)
  from infeasible_fixed_day_gives_no_solution
    [OF slow_visits_tables_match ascending_ok slow_visits_indices slow_visits_day2 this] this
  show ?thesis by (simp add: slow_visits_day2)
qed

text \<open>
  The claim as stated, that no split is examined when the fixed day exceeds the ceiling,
  fails on \<open>slow_visits\<close>: the fixed day takes 79/6 hours, more than 12, and the search
  returns no solution only at the 25th combination. The 24 combinations with Daikin Park
  alone on day 1 are examined and skipped for their day-1 time before the fixed day is
  tested for the first time.
\<close>

theorem fixed_day_is_not_tested_up_front:
  "calculate_route_time slow_visits [7, 4, 7] = Inr (79 / 6) \<and>
   (79 / 6 :: rat) > of_int MAX_TIME_PER_DAY \<and>
   find_best_routes_run ascending slow_visits =
     Inr (\<lparr>best_routes_combination = None, best_total_distance = Infinity,
          examined = 25, reported = 1\<rparr>, None)"
proof -
  have "find_best_routes_run ascending slow_visits =
     Inr (\<lparr>best_routes_combination = None, best_total_distance = Infinity,
          examined = 25, reported = 1\<rparr>, None)"
    by code_simp
  then show ?thesis by (simp add: slow_visits_day2 MAX_TIME_PER_DAY_def)
qed

text \<open>
  Claim C5. For a route over location indices proper, \<^verbatim>\<open>calculate_route_time\<close> returns
  the sum, over the consecutive pairs (from, to) of the route, of the distance from
  \<open>from\<close> to \<open>to\<close> divided by 60 plus the time spent at \<open>to\<close>. Every arrival is charged,
  the last stop of the day included: the sum ranges over all the legs. The statement holds for
  routes of every length, those of length at least two among them.
\<close>

theorem route_time_is_sum_over_legs:
  assumes "tables_match g" and "list_all (valid_index g) route"
  shows "calculate_route_time g route =
     Inr (sum_list (map (\<lambda>(a, b). of_int (distance g a b) / 60 + dwell_time g b) (legs route)))"
  using route_time_loop_sum [OF assms, of 0]
  by (simp add: calculate_route_time_def travel_time_def VELOCIDAD_PROMEDIO_KMH_def)

theorem route_time_is_sum_over_legs_witness:
  "2 \<le> length [7, 4, 7 :: int] \<and>
   calculate_route_time reference [7, 4, 7] = Inr (35 / 60 + 8 + (35 / 60 + 1))"
proof -
  have v: "list_all (valid_index reference) [7, 4, 7]"
    by (simp add: valid_index_def reference_def)
  show ?thesis
    using route_time_is_sum_over_legs [OF reference_tables_match v]
    by (simp add: legs_def distance_def dwell_time_def reference_def)
qed

text \<open>
  Claim C6. The sizes of the day-1 selection range from 1 to the number of free places
  minus 1. So in every day assignment the search builds from a candidate, and in the one it
  returns, day 1 and day 3 each have at least one intermediate stop, and neither has all the
  free places.
\<close>

theorem both_open_days_get_a_free_stop:
  assumes "set_order_ok order"
    and "get_location_index g ''Aeropuerto'' = Inr a"
    and "get_location_index g ''Hotel'' = Inr h"
    and "get_location_index g ''NASA'' = Inr n"
    and "(\<exists>c\<in>set (candidates order (places_to_visit g a h n)). routes = day_assignment a h n c)
         \<or> find_best_routes order g = Inr (Some routes)"
  shows "1 \<le> length (intermediate_stops (routes ! 0)) \<and>
         length (intermediate_stops (routes ! 0)) \<le> length (places_to_visit g a h n) - 1 \<and>
         1 \<le> length (intermediate_stops (routes ! 2)) \<and>
         length (intermediate_stops (routes ! 2)) \<le> length (places_to_visit g a h n) - 1"
proof -
  let ?places = "places_to_visit g a h n"
  have "\<exists>c\<in>set (candidates order ?places). routes = day_assignment a h n c"
    using assms(5)
  proof
    assume "find_best_routes order g = Inr (Some routes)"
    from find_best_routes_Some [OF this assms(2-4)] obtain pre c post where
      "candidates order ?places = pre @ c # post" "routes = day_assignment a h n c"
      by blast
    then show ?thesis by auto
  qed
  then obtain d1 d3 where c: "(d1, d3) \<in> set (candidates order ?places)"
    and r: "routes = day_assignment a h n (d1, d3)" by auto
  note p = candidate_partition [OF assms(1) distinct_places_to_visit c]
  from p(1) have "size (mset d1 + mset d3) = size (mset ?places)" by simp
  then have "length d1 + length d3 = length ?places" by simp
  with p(2-4) r show ?thesis
    by (simp add: intermediate_stops_day_assignment)
qed

theorem both_open_days_get_a_free_stop_witness:
  "find_best_routes ascending reference = Inr (Some [[0, 2, 3, 5, 7], [7, 4, 7], [7, 1, 6, 0]]) \<and>
   1 \<le> length (intermediate_stops [0, 2, 3, 5, 7]) \<and>
   length (intermediate_stops [0, 2, 3, 5, 7]) \<le> length (places_to_visit reference 0 7 4) - 1 \<and>
   1 \<le> length (intermediate_stops [7, 1, 6, 0]) \<and>
   length (intermediate_stops [7, 1, 6, 0]) \<le> length (places_to_visit reference 0 7 4) - 1"
  using both_open_days_get_a_free_stop
    [OF ascending_ok reference_indices disjI2 [OF reference_result]]
  by (simp add: reference_result)

text \<open>
  Claim C7. The recorded best is replaced only by a combination of strictly smaller total
  distance (\<open>best_replaced_only_when_strictly_less\<close>). So the day assignment that
  \<^verbatim>\<open>find_best_routes\<close> returns is the first, in the order of the enumeration, among
  the feasible ones of least total distance: every feasible candidate enumerated before it
  has a strictly greater total distance, and every feasible candidate enumerated after it
  has a total distance at least as great. And a day assignment is returned whenever the
  tables are square and some enumerated candidate is feasible: among several feasible
  candidates of the same least total distance, the function returns the first.
\<close>

theorem first_found_wins_on_ties:
  assumes "get_location_index g ''Aeropuerto'' = Inr a"
    and "get_location_index g ''Hotel'' = Inr h"
    and "get_location_index g ''NASA'' = Inr n"
  shows "(find_best_routes order g = Inr (Some best) \<longrightarrow>
      (\<exists>pre c post x.
         candidates order (places_to_visit g a h n) = pre @ c # post \<and>
         best = day_assignment a h n c \<and> feasible g best \<and> total_distance g best = Inr x \<and>
         (\<forall>c'\<in>set pre. feasible g (day_assignment a h n c') \<longrightarrow>
            (\<exists>y. total_distance g (day_assignment a h n c') = Inr y \<and> x < y)) \<and>
         (\<forall>c'\<in>set post. feasible g (day_assignment a h n c') \<longrightarrow>
            (\<exists>y. total_distance g (day_assignment a h n c') = Inr y \<and> x \<le> y)))) \<and>
    (tables_match g \<and> set_order_ok order \<and>
     c0 \<in> set (candidates order (places_to_visit g a h n)) \<and>
     feasible g (day_assignment a h n c0) \<longrightarrow>
      (\<exists>pre c post x.
         candidates order (places_to_visit g a h n) = pre @ c # post \<and>
         find_best_routes order g = Inr (Some (day_assignment a h n c)) \<and>
         feasible g (day_assignment a h n c) \<and>
         total_distance g (day_assignment a h n c) = Inr x \<and>
         (\<forall>c'\<in>set pre. feasible g (day_assignment a h n c') \<longrightarrow>
            (\<exists>y. total_distance g (day_assignment a h n c') = Inr y \<and> x < y)) \<and>
         (\<forall>c'\<in>set post. feasible g (day_assignment a h n c') \<longrightarrow>
            (\<exists>y. total_distance g (day_assignment a h n c') = Inr y \<and> x \<le> y))))"
proof (intro conjI impI)
  assume "find_best_routes order g = Inr (Some best)"
  from find_best_routes_Some [OF this assms]
  show "\<exists>pre c post x.
         candidates order (places_to_visit g a h n) = pre @ c # post \<and>
         best = day_assignment a h n c \<and> feasible g best \<and> total_distance g best = Inr x \<and>
         (\<forall>c'\<in>set pre. feasible g (day_assignment a h n c') \<longrightarrow>
            (\<exists>y. total_distance g (day_assignment a h n c') = Inr y \<and> x < y)) \<and>
         (\<forall>c'\<in>set post. feasible g (day_assignment a h n c') \<longrightarrow>
            (\<exists>y. total_distance g (day_assignment a h n c') = Inr y \<and> x \<le> y))"
    unfolding all_longer_def no_better_Finite .
next
  assume e: "tables_match g \<and> set_order_ok order \<and>
     c0 \<in> set (candidates order (places_to_visit g a h n)) \<and>
     feasible g (day_assignment a h n c0)"
  then have "\<exists>returned. find_best_routes order g = Inr (Some returned)"
    using find_best_routes_returns [OF _ _ assms, of order c0] by simp
  then obtain returned where r: "find_best_routes order g = Inr (Some returned)" ..
  from find_best_routes_Some [OF r assms] obtain pre c post x where
    "candidates order (places_to_visit g a h n) = pre @ c # post"
    "returned = day_assignment a h n c" "feasible g returned"
    "total_distance g returned = Inr x"
    "all_longer g a h n x pre" "no_better g a h n (Finite x) post"
    by blast
  with r have "candidates order (places_to_visit g a h n) = pre @ c # post \<and>
         find_best_routes order g = Inr (Some (day_assignment a h n c)) \<and>
         feasible g (day_assignment a h n c) \<and>
         total_distance g (day_assignment a h n c) = Inr x \<and>
         all_longer g a h n x pre \<and> no_better g a h n (Finite x) post"
    by simp
  then show "\<exists>pre c post x.
         candidates order (places_to_visit g a h n) = pre @ c # post \<and>
         find_best_routes order g = Inr (Some (day_assignment a h n c)) \<and>
         feasible g (day_assignment a h n c) \<and>
         total_distance g (day_assignment a h n c) = Inr x \<and>
         (\<forall>c'\<in>set pre. feasible g (day_assignment a h n c') \<longrightarrow>
            (\<exists>y. total_distance g (day_assignment a h n c') = Inr y \<and> x < y)) \<and>
         (\<forall>c'\<in>set post. feasible g (day_assignment a h n c') \<longrightarrow>
            (\<exists>y. total_distance g (day_assignment a h n c') = Inr y \<and> x \<le> y))"
    unfolding all_longer_def no_better_Finite by blast
qed

theorem first_found_wins_on_ties_witness:
  "tables_match two_places \<and> set_order_ok ascending \<and>
   candidates ascending (places_to_visit two_places 0 4 2) = [([1], [3]), ([3], [1])] \<and>
   feasible two_places (day_assignment 0 4 2 ([1], [3])) \<and>
   feasible two_places (day_assignment 0 4 2 ([3], [1])) \<and>
   total_distance two_places (day_assignment 0 4 2 ([1], [3])) = Inr 138 \<and>
   total_distance two_places (day_assignment 0 4 2 ([3], [1])) = Inr 138 \<and>
   find_best_routes ascending two_places = Inr (Some (day_assignment 0 4 2 ([1], [3])))"
proof -
  let ?c1 = "([1], [3]) :: int list \<times> int list"
  let ?c2 = "([3], [1]) :: int list \<times> int list"
  have "tables_match two_places \<and> set_order_ok ascending \<and>
     ?c1 \<in> set (candidates ascending (places_to_visit two_places 0 4 2)) \<and>
     feasible two_places (day_assignment 0 4 2 ?c1)"
    by (simp add: two_places_tables_match ascending_ok two_places_candidates two_places_feasible)
  with first_found_wins_on_ties [OF two_places_indices, of ascending _ ?c1]
  obtain pre c post x where
    s: "candidates ascending (places_to_visit two_places 0 4 2) = pre @ c # post"
    and r: "find_best_routes ascending two_places = Inr (Some (day_assignment 0 4 2 c))"
    and x: "total_distance two_places (day_assignment 0 4 2 c) = Inr x"
    and before: "\<forall>c'\<in>set pre. feasible two_places (day_assignment 0 4 2 c') \<longrightarrow>
        (\<exists>y. total_distance two_places (day_assignment 0 4 2 c') = Inr y \<and> x < y)"
    by blast
  from s have "[?c1, ?c2] = pre @ c # post" by (simp only: two_places_candidates)
  then consider "pre = []" "c = ?c1" | "pre = [?c1]" "c = ?c2"
    by (cases pre; cases "tl pre") auto
  then have "c = ?c1"
  proof cases
    case 1
    then show ?thesis by simp
  next
    case 2
    with x have "x = 138" by (simp only: two_places_totals) simp
    moreover from 2 before two_places_feasible(1) have
      "\<exists>y. total_distance two_places (day_assignment 0 4 2 ?c1) = Inr y \<and> x < y" by simp
    ultimately show ?thesis by (simp only: two_places_totals) simp
  qed
  with r show ?thesis
    by (simp only: two_places_candidates two_places_feasible two_places_totals
        two_places_tables_match ascending_ok simp_thms)
qed

text \<open>
  Claim C8. When no entry of the distance table or of the time table is negative, appending
  a stop to a route never decreases \<^verbatim>\<open>calculate_route_time\<close>: both times are computed
  and the time of the longer route is at least the time of the shorter one. The tables of
  the script have no negative entry (\<open>reference_nonnegative\<close>).
\<close>

theorem appending_a_stop_never_decreases_route_time:
  assumes "tables_match g" and "nonnegative_tables g"
    and "list_all (valid_index g) route" and "valid_index g x"
  shows "\<exists>t t'. calculate_route_time g route = Inr t \<and>
                 calculate_route_time g (route @ [x]) = Inr t' \<and> t \<le> t'"
proof (cases "route = []")
  case True
  then show ?thesis by (simp add: calculate_route_time_def)
next
  case False
  then have "last route \<in> set route" by simp
  with assms(3) have l: "valid_index g (last route)" by (simp add: list_all_iff)
  from assms(3,4) have v: "list_all (valid_index g) (route @ [x])" by simp
  have "0 \<le> travel_time g (last route) x"
    using distance_nonnegative [OF assms(1,2) l assms(4)]
    by (simp add: travel_time_def VELOCIDAD_PROMEDIO_KMH_def)
  moreover have "0 \<le> dwell_time g x"
    using assms(1,2,4) by (rule dwell_time_nonnegative)
  ultimately show ?thesis
    using False
    by (simp add: calculate_route_time_def route_time_loop_sum [OF assms(1) assms(3)]
        route_time_loop_sum [OF assms(1) v] legs_snoc)
qed

theorem appending_a_stop_never_decreases_route_time_witness:
  "calculate_route_time reference [0, 1] = Inr (7 / 2) \<and>
   calculate_route_time reference ([0, 1] @ [7]) = Inr (55 / 12) \<and> (7 / 2 :: rat) \<le> 55 / 12"
proof -
  have v: "list_all (valid_index reference) [0, 1]" "valid_index reference 7"
    by (simp_all add: valid_index_def reference_def)
  have "calculate_route_time reference [0, 1] = Inr (7 / 2)"
    by (simp add: calculate_route_time_def reference_def np_get2_def np_get_def
        VELOCIDAD_PROMEDIO_KMH_def)
  then show ?thesis
    using appending_a_stop_never_decreases_route_time
      [OF reference_tables_match reference_nonnegative v]
    by (simp add: calculate_route_time_def reference_def np_get2_def np_get_def
        VELOCIDAD_PROMEDIO_KMH_def)
qed

text \<open>
  Claim C9. In the distance table of the script, for all location indices \<open>a\<close> and \<open>b\<close>
  from 0 to 7, the entry read at \<open>(a, b)\<close> is the entry read at \<open>(b, a)\<close>, and the entry
  read at \<open>(a, a)\<close> is 0.
\<close>

theorem reference_distances_symmetric_zero_diagonal:
  "\<forall>a b. valid_index reference a \<and> valid_index reference b \<longrightarrow>
     np_get2 (DISTANCES_KM reference) a b = np_get2 (DISTANCES_KM reference) b a \<and>
     np_get2 (DISTANCES_KM reference) a a = Inr 0"
proof (intro allI impI)
  fix a b
  assume "valid_index reference a \<and> valid_index reference b"
  then have "0 \<le> a \<and> a < 8" and "0 \<le> b \<and> b < 8"
    by (simp_all add: valid_index_def reference_def)
  then have a: "a = 0 \<or> a = 1 \<or> a = 2 \<or> a = 3 \<or> a = 4 \<or> a = 5 \<or> a = 6 \<or> a = 7"
    and b: "b = 0 \<or> b = 1 \<or> b = 2 \<or> b = 3 \<or> b = 4 \<or> b = 5 \<or> b = 6 \<or> b = 7"
    by arith+
  have diag: "np_get2 (DISTANCES_KM reference) a a = Inr 0"
    using a by (elim disjE) (simp_all add: np_get2_def np_get_def reference_def)
  have "np_get2 (DISTANCES_KM reference) a b = np_get2 (DISTANCES_KM reference) b a"
    using a b by (elim disjE) (simp_all add: np_get2_def np_get_def reference_def)
  with diag show "np_get2 (DISTANCES_KM reference) a b = np_get2 (DISTANCES_KM reference) b a \<and>
     np_get2 (DISTANCES_KM reference) a a = Inr 0" by simp
qed

theorem reference_distances_symmetric_zero_diagonal_witness:
  "valid_index reference 2 \<and> valid_index reference 6 \<and>
   np_get2 (DISTANCES_KM reference) 2 6 = Inr 38 \<and>
   np_get2 (DISTANCES_KM reference) 6 2 = Inr 38 \<and>
   np_get2 (DISTANCES_KM reference) 2 2 = Inr 0"
proof -
  have v: "valid_index reference 2 \<and> valid_index reference 6"
    by (simp add: valid_index_def reference_def)
  have "np_get2 (DISTANCES_KM reference) 2 6 = Inr 38"
    by (simp add: np_get2_def np_get_def reference_def)
  with v show ?thesis
    using reference_distances_symmetric_zero_diagonal by metis
qed

text \<open>
  Claim C10. On a route with fewer than two locations, \<^verbatim>\<open>calculate_route_time\<close> and
  \<^verbatim>\<open>calculate_route_distance\<close> both return 0 and do not fail, whatever the entries of
  the route are: no table is read.
\<close>

theorem short_routes_cost_nothing:
  assumes "length route < 2"
  shows "calculate_route_time g route = Inr 0 \<and> calculate_route_distance g route = Inr 0"
proof (cases route)
  case Nil
  then show ?thesis by (simp add: calculate_route_time_def calculate_route_distance_def)
next
  case (Cons x rest)
  with assms have "rest = []" by simp
  with Cons show ?thesis by (simp add: calculate_route_time_def calculate_route_distance_def)
qed

theorem short_routes_cost_nothing_witness:
  "length ([] :: int list) < 2 \<and> length [99 :: int] < 2 \<and>
   calculate_route_time reference [] = Inr 0 \<and> calculate_route_distance reference [] = Inr 0 \<and>
   calculate_route_time reference [99] = Inr 0 \<and> calculate_route_distance reference [99] = Inr 0"
  using short_routes_cost_nothing [of "[]" reference] short_routes_cost_nothing [of "[99]" reference]
  by simp

end
